theory Spec2Isabelle
  imports Complex_Main "HOL-Library.AList"
begin

section \<open>Python values\<close>

text \<open>
  A Python \<open>str\<close> is a sequence of Unicode code points; the scripts compare, search and
  lower-case text that is partly Cyrillic, so a string is modelled as the list of its code
  points. \<open>ascii\<close> embeds an ASCII literal of the source.
\<close>

type_synonym pystr = "nat list"

definition ascii :: "string \<Rightarrow> pystr" where
  "ascii s = map of_char s"

text \<open>\<open>time.time()\<close> is a float; timestamps and durations are idealised as reals.
  \<open>py_round2 x\<close> is \<open>round(x, 2)\<close>: nearest multiple of 0.01, ties to even.\<close>

definition py_round2 :: "real \<Rightarrow> real" where
  "py_round2 x =
     (let y = x * 100; f = \<lfloor>y\<rfloor>; d = y - of_int f
      in if d < 1 / 2 then of_int f / 100
         else if 1 / 2 < d then of_int (f + 1) / 100
         else (if even f then of_int f else of_int (f + 1)) / 100)"

section \<open>TestResult (itrans.py 41-85, itrans\_zd.py 49-93, lks.py 53-93)\<close>

text \<open>One entry of \<open>TestResult.steps\<close>:
  \<open>{"status": status, "timing": {"duration_seconds": round(duration_seconds, 2)}}\<close>.\<close>

record step_entry =
  step_status :: pystr
  duration_seconds :: real

text \<open>
  The attributes set by \<open>TestResult.__init__\<close>. \<open>steps\<close> is a \<open>dict\<close>: an association list
  in insertion order, written with \<open>AList.update\<close> (an existing key keeps its position, a
  new key goes to the end). \<open>test_info\<close> is \<open>{}\<close> until \<open>finalize\<close> stores
  \<open>{"total_duration": ...}\<close>.
\<close>

record test_result =
  start_time :: real
  steps :: "(pystr \<times> step_entry) list"
  success :: bool
  status :: pystr
  message :: pystr
  error :: "pystr option"
  screenshot :: "pystr option"
  test_info :: "(pystr \<times> real) list"

text \<open>\<open>TestResult()\<close>; the argument is the value \<open>time.time()\<close> returns in the constructor.\<close>

definition TestResult :: "real \<Rightarrow> test_result" where
  "TestResult now =
     \<lparr>start_time = now, steps = [], success = True, status = ascii ''1'', message = [],
      error = None, screenshot = None, test_info = []\<rparr>"

definition add_step :: "test_result \<Rightarrow> pystr \<Rightarrow> pystr \<Rightarrow> real \<Rightarrow> test_result" where
  "add_step self step_name st duration =
     (let self1 = self\<lparr>steps :=
            AList.update step_name
              \<lparr>step_status = st, duration_seconds = py_round2 duration\<rparr> (steps self)\<rparr>
      in if st = ascii ''0'' then self1\<lparr>success := False, status := ascii ''0''\<rparr> else self1)"

definition set_screenshot_b64 :: "test_result \<Rightarrow> pystr \<Rightarrow> test_result" where
  "set_screenshot_b64 self b64 = self\<lparr>screenshot := Some b64\<rparr>"

text \<open>\<open>finalize(success, message, error)\<close>; \<open>end\<close> is the value of \<open>time.time()\<close> read in
  its first line.\<close>

definition finalize ::
  "test_result \<Rightarrow> real \<Rightarrow> bool \<Rightarrow> pystr \<Rightarrow> pystr option \<Rightarrow> test_result" where
  "finalize self end succ msg err =
     self\<lparr>success := succ,
          status := (if succ then ascii ''1'' else ascii ''0''),
          message := msg,
          error := err,
          test_info := [(ascii ''total_duration'', py_round2 (end - start_time self))]\<rparr>"

text \<open>A call \<open>add_step(step_name, status, duration_seconds)\<close> as data, and a sequence of
  such calls applied in order.\<close>

type_synonym add_step_call = "pystr \<times> pystr \<times> real"

definition add_steps :: "test_result \<Rightarrow> add_step_call list \<Rightarrow> test_result" where
  "add_steps self calls = foldl (\<lambda>r (n, s, d). add_step r n s d) self calls"

section \<open>Strings: search, strip, lower\<close>

text \<open>\<open>hay.startswith(needle)\<close> and \<open>needle in hay\<close> on code-point lists.\<close>

fun py_startswith :: "pystr \<Rightarrow> pystr \<Rightarrow> bool" where
  "py_startswith hay [] = True"
| "py_startswith [] (n # ns) = False"
| "py_startswith (h # hs) (n # ns) = (h = n \<and> py_startswith hs ns)"

fun py_in :: "pystr \<Rightarrow> pystr \<Rightarrow> bool" where
  "py_in needle [] = (needle = [])"
| "py_in needle (h # hs) = (py_startswith (h # hs) needle \<or> py_in needle hs)"

text \<open>\<open>str.isspace\<close> on one code point and \<open>str.strip()\<close> without arguments.\<close>

definition py_isspace :: "nat \<Rightarrow> bool" where
  "py_isspace c \<longleftrightarrow>
     (9 \<le> c \<and> c \<le> 13) \<or> (28 \<le> c \<and> c \<le> 32) \<or> c = 133 \<or> c = 160 \<or> c = 5760 \<or>
     (8192 \<le> c \<and> c \<le> 8202) \<or> c = 8232 \<or> c = 8233 \<or> c = 8239 \<or> c = 8287 \<or> c = 12288"

definition py_strip :: "pystr \<Rightarrow> pystr" where
  "py_strip s = rev (dropWhile py_isspace (rev (dropWhile py_isspace s)))"

text \<open>\<open>x or ""\<close> for an optional string.\<close>

definition or_empty :: "pystr option \<Rightarrow> pystr" where
  "or_empty x = (case x of None \<Rightarrow> [] | Some s \<Rightarrow> s)"

text \<open>
  \<open>str.lower\<close> is a builtin of the interpreter, not code of the repository: the functions
  that call it take it as the parameter \<open>lower\<close>, and every theorem below holds for any
  such function. \<open>lower_ascii_cyrillic\<close> is the instance used in concrete examples: it is
  \<open>str.lower\<close> on text whose cased characters are A-Z or in U+0400..U+042F.
\<close>

definition lower_ascii_cyrillic :: "pystr \<Rightarrow> pystr" where
  "lower_ascii_cyrillic s =
     map (\<lambda>c. if 65 \<le> c \<and> c \<le> 90 then c + 32
              else if 1040 \<le> c \<and> c \<le> 1071 then c + 32
              else if 1024 \<le> c \<and> c \<le> 1039 then c + 80
              else c) s"

section \<open>Exceptions\<close>

text \<open>
  The exception classes the scripts tell apart in their \<open>except\<close> clauses. Each value
  carries \<open>str(e)\<close>. \<open>TimeoutException\<close> and \<open>StaleElementReferenceException\<close> are subclasses
  of selenium's \<open>WebDriverException\<close>; \<open>Exception\<close> stands for every exception that is not a
  \<open>WebDriverException\<close>, among them the \<open>raise Exception(...)\<close> of the scripts.
  All four are caught by \<open>except Exception\<close>.
\<close>

datatype exn =
    TimeoutException pystr
  | StaleElementReferenceException pystr
  | WebDriverException pystr
  | Exception pystr

fun is_WebDriverException :: "exn \<Rightarrow> bool" where
  "is_WebDriverException (Exception m) = False"
| "is_WebDriverException e = True"

fun str_exn :: "exn \<Rightarrow> pystr" where
  "str_exn (TimeoutException m) = m"
| "str_exn (StaleElementReferenceException m) = m"
| "str_exn (WebDriverException m) = m"
| "str_exn (Exception m) = m"

section \<open>ItransTest: error banner and wait\_element (itrans.py 125-162, itrans\_zd.py 131-172)\<close>

datatype webdriver = RemoteWebDriver

text \<open>
  What the driver answers for one element returned by
  \<open>find_elements(By.CSS_SELECTOR, ".errors-container .alert.show")\<close>: each of
  \<open>is_displayed()\<close>, \<open>get_attribute("class")\<close> and \<open>.text\<close> returns a value or raises.
\<close>

record web_element =
  is_displayed :: "exn + bool"
  class_attribute :: "exn + pystr option"
  element_text :: "exn + pystr option"

text \<open>The answer of \<open>find_elements\<close> itself: the alert elements, or an exception.\<close>

type_synonym page = "exn + web_element list"

text \<open>The \<open>ItransTest\<close> object. Its attribute \<open>wait\<close> only caches a \<open>WebDriverWait\<close> for the
  default timeout and is left out.\<close>

record itrans_test =
  driver :: "webdriver option"
  check_error_banner :: bool

text \<open>\<open>ItransTest()\<close>: no driver yet, banner check enabled.\<close>

definition ItransTest :: itrans_test where
  "ItransTest = \<lparr>driver = None, check_error_banner = True\<rparr>"

text \<open>The literals of \<open>raise_if_error_banner\<close>: the class marker \<open>"alert-error"\<close>, the two
  Russian patterns of line 145 (the word for "error", and "an error occurred"), and the
  prefix of the message of line 147.\<close>

definition alert_error_marker :: pystr where
  "alert_error_marker = ascii ''alert-error''"

definition error_word :: pystr where
  "error_word = [1086, 1096, 1080, 1073, 1082, 1072]"

definition error_occurred_phrase :: pystr where
  "error_occurred_phrase =
     [1087, 1088, 1086, 1080, 1079, 1086, 1096, 1083, 1072, 32,
      1086, 1096, 1080, 1073, 1082, 1072]"

definition banner_prefix :: pystr where
  "banner_prefix =
     [1054, 1073, 1085, 1072, 1088, 1091, 1078, 1077, 1085, 1086, 32,
      1089, 1086, 1086, 1073, 1097, 1077, 1085, 1080, 1077, 32, 1086, 1073, 32,
      1086, 1096, 1080, 1073, 1082, 1077, 32, 1085, 1072, 32,
      1089, 1090, 1088, 1072, 1085, 1080, 1094, 1077, 58, 32]"

text \<open>\<open>[el for el in alerts if el.is_displayed()]\<close>: every element is asked in order, and
  the first exception ends the comprehension.\<close>

fun visible_alerts :: "web_element list \<Rightarrow> exn + web_element list" where
  "visible_alerts [] = Inr []"
| "visible_alerts (el # els) =
     (case is_displayed el of
        Inl e \<Rightarrow> Inl e
      | Inr shown \<Rightarrow>
          (case visible_alerts els of
             Inl e \<Rightarrow> Inl e
           | Inr rest \<Rightarrow> Inr (if shown then el # rest else rest)))"

text \<open>The \<open>for alert in visible_alerts\<close> loop, lines 140-147.\<close>

fun scan_alerts :: "(pystr \<Rightarrow> pystr) \<Rightarrow> web_element list \<Rightarrow> exn + unit" where
  "scan_alerts lower [] = Inr ()"
| "scan_alerts lower (alert # rest) =
     (case class_attribute alert of
        Inl e \<Rightarrow> Inl e
      | Inr cls \<Rightarrow>
          (let classes = lower (or_empty cls) in
           case element_text alert of
             Inl e \<Rightarrow> Inl e
           | Inr txt \<Rightarrow>
               (let text = py_strip (or_empty txt);
                    is_error_by_class = py_in alert_error_marker classes;
                    is_error_by_text =
                      (py_in error_word (lower text) \<or> py_in error_occurred_phrase (lower text))
                in if is_error_by_class \<or> is_error_by_text
                   then Inl (Exception (banner_prefix @ text))
                   else scan_alerts lower rest)))"

text \<open>The body of the \<open>try\<close>, lines 138-147.\<close>

definition query_banner :: "(pystr \<Rightarrow> pystr) \<Rightarrow> page \<Rightarrow> exn + unit" where
  "query_banner lower pg =
     (case pg of
        Inl e \<Rightarrow> Inl e
      | Inr alerts \<Rightarrow>
          (case visible_alerts alerts of
             Inl e \<Rightarrow> Inl e
           | Inr shown \<Rightarrow> scan_alerts lower shown))"

text \<open>\<open>raise_if_error_banner\<close>: \<open>Inr ()\<close> is the normal return; \<open>except WebDriverException:
  pass\<close> turns a driver exception of the query into a normal return and lets every other
  exception through.\<close>

definition raise_if_error_banner :: "(pystr \<Rightarrow> pystr) \<Rightarrow> itrans_test \<Rightarrow> page \<Rightarrow> exn + unit" where
  "raise_if_error_banner lower self pg =
     (if \<not> check_error_banner self then Inr ()
      else if driver self = None then Inr ()
      else (case query_banner lower pg of
              Inl e \<Rightarrow> if is_WebDriverException e then Inr () else Inl e
            | Inr u \<Rightarrow> Inr ()))"




text \<open>Vocabulary of the statements about the banner check: an element all of whose three
  queries return; what the check reads from such an element; the classification of lines
  143-146.\<close>

definition observed :: "web_element \<Rightarrow> bool" where
  "observed a \<longleftrightarrow> \<not> isl (is_displayed a) \<and> \<not> isl (class_attribute a) \<and> \<not> isl (element_text a)"

definition shown :: "web_element \<Rightarrow> bool" where
  "shown a \<longleftrightarrow> is_displayed a = Inr True"

definition alert_classes :: "(pystr \<Rightarrow> pystr) \<Rightarrow> web_element \<Rightarrow> pystr" where
  "alert_classes lower a = lower (or_empty (projr (class_attribute a)))"

definition alert_text :: "web_element \<Rightarrow> pystr" where
  "alert_text a = py_strip (or_empty (projr (element_text a)))"

definition is_error_alert :: "(pystr \<Rightarrow> pystr) \<Rightarrow> web_element \<Rightarrow> bool" where
  "is_error_alert lower a \<longleftrightarrow>
     py_in alert_error_marker (alert_classes lower a) \<or> py_in error_word (lower (alert_text a))"

text \<open>What one run of the check comes across first, in the order of its queries: nothing
  (\<open>Clean\<close>), an alert classified as an error with its stripped text (\<open>Banner\<close>), or a query
  that raised (\<open>QueryError\<close>). For one shown alert the class attribute is read before the
  text, and both before the classification. For the page, \<open>find_elements\<close> comes first, then
  \<open>is_displayed\<close> of every alert in order, then the shown alerts in order up to the first
  that is not clean.\<close>

datatype finding = Clean | Banner pystr | QueryError exn

definition alert_finding :: "(pystr \<Rightarrow> pystr) \<Rightarrow> web_element \<Rightarrow> finding" where
  "alert_finding lower a =
     (case class_attribute a of
        Inl e \<Rightarrow> QueryError e
      | Inr cls \<Rightarrow>
          (case element_text a of
             Inl e \<Rightarrow> QueryError e
           | Inr txt \<Rightarrow> if is_error_alert lower a then Banner (alert_text a) else Clean))"

definition page_finding :: "(pystr \<Rightarrow> pystr) \<Rightarrow> page \<Rightarrow> finding" where
  "page_finding lower pg =
     (case pg of
        Inl e \<Rightarrow> QueryError e
      | Inr alerts \<Rightarrow>
          (case find (\<lambda>a. isl (is_displayed a)) alerts of
             Some a \<Rightarrow> QueryError (projl (is_displayed a))
           | None \<Rightarrow>
               (case find (\<lambda>a. alert_finding lower a \<noteq> Clean) (filter shown alerts) of
                  None \<Rightarrow> Clean
                | Some a \<Rightarrow> alert_finding lower a)))"

section \<open>Example data\<close>

text \<open>Concrete inputs at which the statements below are instantiated: a test object with a
  driver and the banner check enabled; a hidden alert with the error class; a shown alert
  whose class attribute is in upper case; a shown alert without class whose text is the
  upper-case error word followed by "!".\<close>

definition example_test :: itrans_test where
  "example_test = \<lparr>driver = Some RemoteWebDriver, check_error_banner = True\<rparr>"

definition hidden_error_alert :: web_element where
  "hidden_error_alert =
     \<lparr>is_displayed = Inr False, class_attribute = Inr (Some (ascii ''alert alert-error show'')),
      element_text = Inr None\<rparr>"

definition upper_case_class_alert :: web_element where
  "upper_case_class_alert =
     \<lparr>is_displayed = Inr True, class_attribute = Inr (Some (ascii ''ALERT ALERT-ERROR SHOW'')),
      element_text = Inr (Some (ascii '' saved ''))\<rparr>"

definition upper_case_text_alert :: web_element where
  "upper_case_text_alert =
     \<lparr>is_displayed = Inr True, class_attribute = Inr None,
      element_text = Inr (Some [1054, 1064, 1048, 1041, 1050, 1040, 33])\<rparr>"

text \<open>A \<open>StaleElementReferenceException\<close> (a subclass of \<open>WebDriverException\<close>); an alert
  element that has gone stale, so that each of its queries raises; a shown alert with the
  error class whose \<open>.text\<close> raises.\<close>

definition stale :: exn where
  "stale = StaleElementReferenceException (ascii ''stale element reference'')"

definition stale_alert :: web_element where
  "stale_alert = \<lparr>is_displayed = Inl stale, class_attribute = Inl stale, element_text = Inl stale\<rparr>"

definition stale_text_alert :: web_element where
  "stale_text_alert =
     \<lparr>is_displayed = Inr True, class_attribute = Inr (Some (ascii ''alert alert-error show'')),
      element_text = Inl stale\<rparr>"

section \<open>The report (to\_dict)\<close>

text \<open>The value handed to \<open>json.dumps\<close>: a \<open>dict\<close> is an association list in insertion
  order, \<open>None\<close> is \<open>JNull\<close>. A key that is missing from the list is absent from the report;
  a key bound to \<open>JNull\<close> is present with value \<open>null\<close>.\<close>

datatype json = JNull | JBool bool | JStr pystr | JNum real | JObj "(pystr \<times> json) list"

definition json_opt_str :: "pystr option \<Rightarrow> json" where
  "json_opt_str x = (case x of None \<Rightarrow> JNull | Some s \<Rightarrow> JStr s)"

definition json_step :: "step_entry \<Rightarrow> json" where
  "json_step e =
     JObj [(ascii ''status'', JStr (step_status e)),
           (ascii ''timing'', JObj [(ascii ''duration_seconds'', JNum (duration_seconds e))])]"

definition json_steps :: "(pystr \<times> step_entry) list \<Rightarrow> json" where
  "json_steps ss = JObj (map (\<lambda>(k, e). (k, json_step e)) ss)"

definition json_test_info :: "(pystr \<times> real) list \<Rightarrow> json" where
  "json_test_info ti = JObj (map (\<lambda>(k, v). (k, JNum v)) ti)"

text \<open>\<open>TestResult.to_dict\<close> of itrans.py (76-85) and itrans\_zd.py (84-93): the key
  \<open>"error"\<close> is always written.\<close>

definition to_dict :: "test_result \<Rightarrow> (pystr \<times> json) list" where
  "to_dict self =
     [(ascii ''success'', JBool (success self)),
      (ascii ''status'', JStr (status self)),
      (ascii ''message'', JStr (message self)),
      (ascii ''error'', json_opt_str (error self)),
      (ascii ''test_info'', json_test_info (test_info self)),
      (ascii ''steps'', json_steps (steps self)),
      (ascii ''screenshot'', json_opt_str (screenshot self))]"

text \<open>\<open>TestResult.to_dict\<close> of lks.py (81-93): \<open>"error"\<close> is added only when
  \<open>self.error is not None\<close>.\<close>

definition to_dict_lks :: "test_result \<Rightarrow> (pystr \<times> json) list" where
  "to_dict_lks self =
     (let data =
        [(ascii ''success'', JBool (success self)),
         (ascii ''status'', JStr (status self)),
         (ascii ''message'', JStr (message self)),
         (ascii ''test_info'', json_test_info (test_info self)),
         (ascii ''steps'', json_steps (steps self)),
         (ascii ''screenshot'', json_opt_str (screenshot self))]
      in case error self of
           None \<Rightarrow> data
         | Some e \<Rightarrow> AList.update (ascii ''error'') (JStr e) data)"

section \<open>The external collaborators\<close>

text \<open>
  The browser session, the clock, Telegram and standard output are outside the
  repository. They are a state \<open>'w\<close> and the operations the scripts call on it; an
  operation that can raise returns \<open>Inl\<close> of the exception together with the new state.
  \<^item> \<open>time_time\<close>: \<open>time.time()\<close>.
  \<^item> \<open>build_driver\<close>: \<open>build_driver()\<close>.
  \<^item> \<open>driver_refresh\<close>: \<open>driver.refresh()\<close>.
  \<^item> \<open>wait_ready_state\<close>: the \<open>WebDriverWait(...).until(readyState == "complete")\<close> of lks.py 387-389.
  \<^item> \<open>time_sleep\<close>: \<open>time.sleep(seconds)\<close>.
  \<^item> \<open>get_screenshot_b64\<close>: \<open>get_screenshot_b64(driver)\<close>.
  \<^item> \<open>save_screenshot_file\<close>: \<open>save_screenshot_file(driver, name)\<close>, whose whole body is inside \<open>try ... except Exception: pass\<close>.
  \<^item> \<open>send_telegram_alert\<close>: \<open>send_telegram_alert(...)\<close>, which catches every exception of the request.
  \<^item> \<open>print_json\<close>: \<open>print(json.dumps(report, ensure_ascii=False, indent=2))\<close>.
  \<^item> \<open>driver_quit\<close>: the guarded \<open>driver.quit()\<close> of the \<open>finally\<close> clause.
  \<^item> \<open>format_exception_full\<close>: the traceback text of an exception (itrans.py 114-122).
\<close>

record telegram_args =
  tg_token :: "pystr option"
  tg_chat_id :: "pystr option"
  tg_text :: pystr
  tg_screenshot_b64 :: "pystr option"
  tg_step_number :: "pystr option"
  tg_step_description :: "pystr option"

record 'w ops =
  time_time :: "'w \<Rightarrow> real"
  build_driver :: "'w \<Rightarrow> (exn + webdriver) \<times> 'w"
  driver_refresh :: "'w \<Rightarrow> (exn + unit) \<times> 'w"
  wait_ready_state :: "'w \<Rightarrow> (exn + unit) \<times> 'w"
  time_sleep :: "real \<Rightarrow> 'w \<Rightarrow> 'w"
  get_screenshot_b64 :: "'w \<Rightarrow> (exn + pystr) \<times> 'w"
  save_screenshot_file :: "'w \<Rightarrow> 'w"
  send_telegram_alert :: "telegram_args \<Rightarrow> 'w \<Rightarrow> 'w"
  print_json :: "(pystr \<times> json) list \<Rightarrow> 'w \<Rightarrow> 'w"
  driver_quit :: "'w \<Rightarrow> 'w"
  format_exception_full :: "exn \<Rightarrow> pystr"

text \<open>A step function or closure called without result: it returns or raises, and changes
  the state of the browser.\<close>

type_synonym 'w action = "'w \<Rightarrow> (exn + unit) \<times> 'w"

text \<open>The environment variables read by \<open>main\<close>.\<close>

record config =
  username :: "pystr option"
  password :: "pystr option"
  telegram_token :: "pystr option"
  telegram_chat_id :: "pystr option"

text \<open>\<open>not x\<close> for an optional string: \<open>None\<close> and \<open>""\<close> are false.\<close>

definition py_not :: "pystr option \<Rightarrow> bool" where
  "py_not x \<longleftrightarrow> x = None \<or> x = Some []"

text \<open>\<open>str(n)\<close> for a non-negative integer.\<close>

fun str_nat :: "nat \<Rightarrow> pystr" where
  "str_nat n = (if n < 10 then [48 + n] else str_nat (n div 10) @ [48 + n mod 10])"

declare str_nat.simps [simp del]

text \<open>The f-strings of the failure paths: "step N error: ..." (lks.py 396, itrans.py 408),
  "the test ended with an error at step N" (lks.py 408), "the test ended with an error"
  (lks.py 465), "general error: ..." (lks.py 452), "the test completed successfully"
  (lks.py 448), "critical error: ..." (itrans.py 486), "the test ended with a critical
  error" (itrans.py 495), and the message of the \<open>ValueError\<close> for missing credentials.\<close>

definition step_error_text :: "nat \<Rightarrow> pystr \<Rightarrow> pystr" where
  "step_error_text step_number detail =
     [1064, 1072, 1075, 32] @ str_nat step_number
       @ [32, 1086, 1096, 1080, 1073, 1082, 1072, 58, 32] @ detail"

definition failed_at_step_text :: "nat \<Rightarrow> pystr" where
  "failed_at_step_text step_number =
     [1058, 1077, 1089, 1090, 32, 1079, 1072, 1074, 1077, 1088, 1096, 1080, 1083, 1089, 1103,
      32, 1089, 32, 1086, 1096, 1080, 1073, 1082, 1086, 1081, 32, 1085, 1072, 32,
      1096, 1072, 1075, 1077, 32] @ str_nat step_number"

definition failed_text :: pystr where
  "failed_text =
     [1058, 1077, 1089, 1090, 32, 1079, 1072, 1074, 1077, 1088, 1096, 1080, 1083, 1089, 1103,
      32, 1089, 32, 1086, 1096, 1080, 1073, 1082, 1086, 1081]"

definition general_error_text :: "pystr \<Rightarrow> pystr" where
  "general_error_text detail =
     [1054, 1073, 1097, 1072, 1103, 32, 1086, 1096, 1080, 1073, 1082, 1072, 58, 32] @ detail"

definition success_text :: pystr where
  "success_text =
     [1058, 1077, 1089, 1090, 32, 1074, 1099, 1087, 1086, 1083, 1085, 1077, 1085, 32,
      1091, 1089, 1087, 1077, 1096, 1085, 1086]"

definition critical_error_text :: "pystr \<Rightarrow> pystr" where
  "critical_error_text detail =
     [1050, 1088, 1080, 1090, 1080, 1095, 1077, 1089, 1082, 1072, 1103, 32,
      1086, 1096, 1080, 1073, 1082, 1072, 58, 32] @ detail"

definition critical_failed_text :: pystr where
  "critical_failed_text =
     [1058, 1077, 1089, 1090, 32, 1079, 1072, 1074, 1077, 1088, 1096, 1080, 1083, 1089, 1103,
      32, 1089, 32, 1082, 1088, 1080, 1090, 1080, 1095, 1077, 1089, 1082, 1086, 1081, 32,
      1086, 1096, 1080, 1073, 1082, 1086, 1081]"

definition missing_credentials :: exn where
  "missing_credentials =
     Exception
       ([1053, 1077, 32, 1079, 1072, 1076, 1072, 1085, 1099, 32, 1091, 1095, 1077, 1090, 1085,
         1099, 1077, 32, 1076, 1072, 1085, 1085, 1099, 1077, 58, 32]
        @ ascii ''ITRANS_LOGIN'' @ [32, 1080, 32] @ ascii ''ITRANS_PASSWORD'')"

section \<open>lks.py: execute\_step\_with\_retry (373-412)\<close>

text \<open>Lines 384-392, the recovery between two attempts: refresh, wait for the ready state,
  sleep three seconds; the first exception ends the block and is dropped.\<close>

definition refresh_and_wait :: "'w ops \<Rightarrow> webdriver option \<Rightarrow> 'w \<Rightarrow> 'w" where
  "refresh_and_wait ops drv w =
     (case drv of
        None \<Rightarrow> w
      | Some d \<Rightarrow>
          (case driver_refresh ops w of
             (Inl e, w1) \<Rightarrow> w1
           | (Inr u, w1) \<Rightarrow>
               (case wait_ready_state ops w1 of
                  (Inl e, w2) \<Rightarrow> w2
                | (Inr u', w2) \<Rightarrow> time_sleep ops 3 w2)))"

text \<open>Lines 397-403: the screenshot is taken, stored in the result and saved to a file; an
  exception of the capture leaves \<open>ss_b64 = None\<close> and is dropped.\<close>

definition capture_screenshot ::
  "'w ops \<Rightarrow> test_result \<Rightarrow> 'w \<Rightarrow> pystr option \<times> test_result \<times> 'w" where
  "capture_screenshot ops test_result w =
     (case get_screenshot_b64 ops w of
        (Inl e', w') \<Rightarrow> (None, test_result, w')
      | (Inr b64, w') \<Rightarrow>
          (Some b64, set_screenshot_b64 test_result b64, save_screenshot_file ops w'))"

text \<open>Lines 395-412, the \<open>else\<close> branch after the last attempt; \<open>t0\<close> is the start time of
  that attempt, \<open>e\<close> its exception, \<open>w\<close> the state the attempt left.\<close>

definition step_failed ::
  "'w ops \<Rightarrow> config \<Rightarrow> nat \<Rightarrow> pystr \<Rightarrow> pystr option \<Rightarrow> real \<Rightarrow> exn \<Rightarrow> test_result \<Rightarrow> 'w
     \<Rightarrow> test_result \<times> 'w" where
  "step_failed ops cfg step_number step_key step_description t0 e test_result w =
     (let err = step_error_text step_number (str_exn e);
          (ss_b64, r1, w1) = capture_screenshot ops test_result w;
          r2 = add_step r1 step_key (ascii ''0'') (time_time ops w1 - t0);
          w2 = send_telegram_alert ops
                 \<lparr>tg_token = telegram_token cfg, tg_chat_id = telegram_chat_id cfg,
                  tg_text = err, tg_screenshot_b64 = ss_b64,
                  tg_step_number = Some (str_nat step_number),
                  tg_step_description = step_description\<rparr> w1;
          r3 = finalize r2 (time_time ops w2) False (failed_at_step_text step_number) (Some err);
          w3 = print_json ops (to_dict_lks r3) w2
      in (r3, w3))"

text \<open>
  The \<open>for attempt in range(max_retries + 1)\<close> loop, by recursion on the attempts still to
  run. The result is the returned value (\<open>None\<close> when the loop ends without \<open>return\<close>), the
  \<open>TestResult\<close> object and the state.
\<close>

fun retry_attempts ::
  "'w ops \<Rightarrow> config \<Rightarrow> nat \<Rightarrow> pystr \<Rightarrow> 'w action \<Rightarrow> webdriver option \<Rightarrow> pystr option \<Rightarrow> nat
     \<Rightarrow> nat list \<Rightarrow> test_result \<Rightarrow> 'w \<Rightarrow> bool option \<times> test_result \<times> 'w" where
  "retry_attempts ops cfg step_number step_key action drv step_description max_retries
     [] test_result w = (None, test_result, w)"
| "retry_attempts ops cfg step_number step_key action drv step_description max_retries
     (attempt # rest) test_result w =
     (let t0 = time_time ops w in
      case action w of
        (Inr u, w1) \<Rightarrow>
          (Some True, add_step test_result step_key (ascii ''1'') (time_time ops w1 - t0), w1)
      | (Inl e, w1) \<Rightarrow>
          if attempt < max_retries
          then retry_attempts ops cfg step_number step_key action drv step_description
                 max_retries rest test_result (refresh_and_wait ops drv w1)
          else (case step_failed ops cfg step_number step_key step_description t0 e
                       test_result w1 of
                  (r, w2) \<Rightarrow> (Some False, r, w2)))"

definition execute_step_with_retry ::
  "'w ops \<Rightarrow> config \<Rightarrow> nat \<Rightarrow> pystr \<Rightarrow> 'w action \<Rightarrow> webdriver option \<Rightarrow> pystr option \<Rightarrow> nat
     \<Rightarrow> test_result \<Rightarrow> 'w \<Rightarrow> bool option \<times> test_result \<times> 'w" where
  "execute_step_with_retry ops cfg step_number step_key action drv step_description max_retries
     test_result w =
     retry_attempts ops cfg step_number step_key action drv step_description max_retries
       [0..<max_retries + 1] test_result w"

text \<open>The state in which attempt number \<open>j\<close> (from 0) starts when all attempts before it
  failed: each failed attempt is followed by one recovery.\<close>

fun attempt_state :: "'w ops \<Rightarrow> 'w action \<Rightarrow> webdriver option \<Rightarrow> nat \<Rightarrow> 'w \<Rightarrow> 'w" where
  "attempt_state ops action drv 0 w = w"
| "attempt_state ops action drv (Suc j) w =
     refresh_and_wait ops drv (snd (action (attempt_state ops action drv j w)))"

section \<open>test\_dl.py: retry\_on\_exception (178-199)\<close>

text \<open>
  The wrapper built by \<open>retry_on_exception(retries, delay)(func)\<close>, by recursion on the
  attempts of \<open>range(retries)\<close> still to run. It returns what \<open>func\<close> returns, re-raises the
  exception of the attempt numbered \<open>retries - 1\<close>, or returns \<open>None\<close> when the loop ends.
  After any other failed attempt the page is refreshed (an exception of the refresh is
  only logged) and the wrapper sleeps \<open>delay\<close> seconds. Logging is disabled in line 47.
\<close>

fun retry_wrapper ::
  "'w ops \<Rightarrow> int \<Rightarrow> real \<Rightarrow> ('w \<Rightarrow> (exn + 'a) \<times> 'w) \<Rightarrow> nat list \<Rightarrow> 'w \<Rightarrow> (exn + 'a option) \<times> 'w" where
  "retry_wrapper ops retries delay func [] w = (Inr None, w)"
| "retry_wrapper ops retries delay func (attempt # rest) w =
     (case func w of
        (Inr v, w1) \<Rightarrow> (Inr (Some v), w1)
      | (Inl e, w1) \<Rightarrow>
          if int attempt = retries - 1 then (Inl e, w1)
          else retry_wrapper ops retries delay func rest
                 (time_sleep ops delay (snd (driver_refresh ops w1))))"

definition retry_on_exception ::
  "'w ops \<Rightarrow> int \<Rightarrow> real \<Rightarrow> ('w \<Rightarrow> (exn + 'a) \<times> 'w) \<Rightarrow> 'w \<Rightarrow> (exn + 'a option) \<times> 'w" where
  "retry_on_exception ops retries delay func w =
     retry_wrapper ops retries delay func [0..<nat retries] w"

text \<open>The state in which attempt number \<open>j\<close> of the wrapper starts when all attempts before
  it failed.\<close>

fun wrapper_state :: "'w ops \<Rightarrow> real \<Rightarrow> ('w \<Rightarrow> (exn + 'a) \<times> 'w) \<Rightarrow> nat \<Rightarrow> 'w \<Rightarrow> 'w" where
  "wrapper_state ops delay func 0 w = w"
| "wrapper_state ops delay func (Suc j) w =
     time_sleep ops delay (snd (driver_refresh ops (snd (func (wrapper_state ops delay func j w)))))"

section \<open>Observing calls\<close>

text \<open>
  What a test double of the browser would record: \<open>Attempt ok\<close> for a call of the wrapped
  action (\<open>ok\<close> when it returned), \<open>Recovery\<close> for a call of \<open>driver.refresh()\<close>.
  \<open>traced ops f tr\<close> says that \<open>tr\<close> reads such a record from the state: \<open>f\<close> and
  \<open>driver_refresh\<close> append their event, and no other operation changes the record.
\<close>

datatype event = Attempt bool | Recovery

definition traced :: "'w ops \<Rightarrow> ('w \<Rightarrow> (exn + 'a) \<times> 'w) \<Rightarrow> ('w \<Rightarrow> event list) \<Rightarrow> bool" where
  "traced ops f tr \<longleftrightarrow>
     (\<forall>w. tr (snd (f w)) = tr w @ [Attempt (\<not> isl (fst (f w)))]) \<and>
     (\<forall>w. tr (snd (driver_refresh ops w)) = tr w @ [Recovery]) \<and>
     (\<forall>w. tr (snd (wait_ready_state ops w)) = tr w) \<and>
     (\<forall>s w. tr (time_sleep ops s w) = tr w) \<and>
     (\<forall>w. tr (snd (get_screenshot_b64 ops w)) = tr w) \<and>
     (\<forall>w. tr (save_screenshot_file ops w) = tr w) \<and>
     (\<forall>a w. tr (send_telegram_alert ops a w) = tr w) \<and>
     (\<forall>j w. tr (print_json ops j w) = tr w)"

text \<open>A failed attempt followed by its recovery, \<open>j\<close> times.\<close>

definition failed_rounds :: "nat \<Rightarrow> event list" where
  "failed_rounds j = concat (replicate j [Attempt False, Recovery])"

section \<open>A scripted browser\<close>

text \<open>
  A concrete state for examples. \<open>sim_script\<close> lists what the coming calls of step functions
  do (a call beyond the script returns); every such call takes one second, a refresh two.
  \<open>sim_capture\<close> is what taking a screenshot does. The state records the calls, the alerts
  sent and the reports printed.
\<close>

record sim =
  sim_clock :: real
  sim_script :: "(exn + unit) list"
  sim_capture :: "exn + pystr"
  sim_events :: "event list"
  sim_alerts :: "telegram_args list"
  sim_stdout :: "(pystr \<times> json) list list"

definition sim_call :: "sim action" where
  "sim_call w =
     (case sim_script w of
        [] \<Rightarrow> (Inr (), w\<lparr>sim_clock := sim_clock w + 1,
                          sim_events := sim_events w @ [Attempt True]\<rparr>)
      | x # xs \<Rightarrow> (x, w\<lparr>sim_clock := sim_clock w + 1, sim_script := xs,
                         sim_events := sim_events w @ [Attempt (\<not> isl x)]\<rparr>))"

definition sim_ops :: "sim ops" where
  "sim_ops =
     \<lparr>time_time = sim_clock,
      build_driver = (\<lambda>w. (Inr RemoteWebDriver, w)),
      driver_refresh = (\<lambda>w. (Inr (), w\<lparr>sim_clock := sim_clock w + 2,
                                        sim_events := sim_events w @ [Recovery]\<rparr>)),
      wait_ready_state = (\<lambda>w. (Inr (), w)),
      time_sleep = (\<lambda>s w. w\<lparr>sim_clock := sim_clock w + s\<rparr>),
      get_screenshot_b64 = (\<lambda>w. (sim_capture w, w)),
      save_screenshot_file = (\<lambda>w. w),
      send_telegram_alert = (\<lambda>a w. w\<lparr>sim_alerts := sim_alerts w @ [a]\<rparr>),
      print_json = (\<lambda>j w. w\<lparr>sim_stdout := sim_stdout w @ [j]\<rparr>),
      driver_quit = (\<lambda>w. w),
      format_exception_full = str_exn\<rparr>"

definition sim_start :: "(exn + unit) list \<Rightarrow> exn + pystr \<Rightarrow> sim" where
  "sim_start script capture =
     \<lparr>sim_clock = 0, sim_script = script, sim_capture = capture, sim_events = [],
      sim_alerts = [], sim_stdout = []\<rparr>"

definition sim_config :: config where
  "sim_config =
     \<lparr>username = Some (ascii ''user''), password = Some (ascii ''secret''),
      telegram_token = None, telegram_chat_id = None\<rparr>"

definition two_failures :: "(exn + unit) list" where
  "two_failures = [Inl (Exception (ascii ''first'')), Inl (TimeoutException (ascii ''second''))]"

text \<open>\<open>execute_step_with_retry\<close> of step 3 on a fresh result, in a browser whose first two
  step calls fail and whose third returns.\<close>

definition sim_retry_run :: "nat \<Rightarrow> bool option \<times> test_result \<times> sim" where
  "sim_retry_run max_retries =
     execute_step_with_retry sim_ops sim_config 3 (ascii ''step_03'') sim_call
       (Some RemoteWebDriver) None max_retries (TestResult 0)
       (sim_start two_failures (Inr (ascii ''cG5n'')))"

text \<open>The wrapper of \<open>retry_on_exception(retries)\<close> around a method, in the same browser.\<close>

definition sim_wrapper_run :: "int \<Rightarrow> (exn + unit option) \<times> sim" where
  "sim_wrapper_run retries =
     retry_on_exception sim_ops retries 1 sim_call (sim_start two_failures (Inr (ascii ''cG5n'')))"

section \<open>lks.py: main (415-473)\<close>

text \<open>What a run leaves: the exit code, the \<open>TestResult\<close> object and the state of the
  collaborators (which holds what was printed and sent).\<close>

record 'w run =
  exit_code :: int
  final_result :: test_result
  final_state :: 'w

text \<open>The \<open>except Exception\<close> block of \<open>main\<close>, lines 451-467; \<open>drv\<close> is the local \<open>driver\<close>.\<close>

definition lks_general_error ::
  "'w ops \<Rightarrow> config \<Rightarrow> webdriver option \<Rightarrow> exn \<Rightarrow> test_result \<Rightarrow> 'w \<Rightarrow> 'w run" where
  "lks_general_error ops cfg drv e test_result w =
     (let err_text = general_error_text (str_exn e);
          (ss_b64, r1, w1) =
            (case drv of
               None \<Rightarrow> (None, test_result, w)
             | Some d \<Rightarrow> capture_screenshot ops test_result w);
          w2 = send_telegram_alert ops
                 \<lparr>tg_token = telegram_token cfg, tg_chat_id = telegram_chat_id cfg,
                  tg_text = err_text, tg_screenshot_b64 = ss_b64,
                  tg_step_number = None, tg_step_description = Some (str_exn e)\<rparr> w1;
          r2 = finalize r1 (time_time ops w2) False failed_text (Some err_text);
          w3 = print_json ops (to_dict_lks r2) w2
      in \<lparr>exit_code = 1, final_result = r2, final_state = w3\<rparr>)"

text \<open>The five calls of lines 436-445 with their number, key and description ("login",
  "opening the request journal", "opening the forwarder report", "available equipment",
  "checking the container filter").\<close>

definition lks_step_list :: "(nat \<times> pystr \<times> pystr) list" where
  "lks_step_list =
     [(1, ascii ''step_01_open_and_authenticate'',
          [1042, 1093, 1086, 1076, 32, 1074, 32, 1089, 1080, 1089, 1090, 1077, 1084, 1091]),
      (2, ascii ''step_02_open_journal'',
          [1054, 1090, 1082, 1088, 1099, 1090, 1080, 1077, 32, 1046, 1091, 1088, 1085, 1072,
           1083, 32, 1079, 1072, 1103, 1074, 1086, 1082]),
      (3, ascii ''step_03_open_expeditor_report_and_select_rail'',
          [1054, 1090, 1082, 1088, 1099, 1090, 1080, 1077, 32, 1054, 1090, 1095, 1077, 1090,
           32, 1101, 1082, 1089, 1087, 1077, 1076, 1080, 1090, 1086, 1088, 1072]),
      (4, ascii ''step_04_open_available_equipment'',
          [1044, 1086, 1089, 1090, 1091, 1087, 1085, 1086, 1077, 32, 1086, 1073, 1086, 1088,
           1091, 1076, 1086, 1074, 1072, 1085, 1080, 1077]),
      (5, ascii ''step_05_check_container_filter'',
          [1055, 1088, 1086, 1074, 1077, 1088, 1082, 1072, 32, 1092, 1080, 1083, 1100, 1090,
           1088, 1072, 32, 1082, 1086, 1085, 1090, 1077, 1081, 1085, 1077, 1088, 1086, 1074])]"

text \<open>
  Lines 436-450: each \<open>if not execute_step_with_retry(...): return 1\<close> in turn (with the
  default \<open>max_retries = 2\<close>), then the success path. The source writes the five calls out;
  the model runs them from the list. \<open>step n\<close> is the closure passed for step \<open>n\<close>.
\<close>

fun lks_steps ::
  "'w ops \<Rightarrow> (nat \<Rightarrow> 'w action) \<Rightarrow> config \<Rightarrow> webdriver option \<Rightarrow> (nat \<times> pystr \<times> pystr) list
     \<Rightarrow> test_result \<Rightarrow> 'w \<Rightarrow> 'w run" where
  "lks_steps ops step cfg drv [] test_result w =
     (let r = finalize test_result (time_time ops w) True success_text None;
          w1 = print_json ops (to_dict_lks r) w
      in \<lparr>exit_code = 0, final_result = r, final_state = w1\<rparr>)"
| "lks_steps ops step cfg drv ((step_number, step_key, step_description) # rest) test_result w =
     (case execute_step_with_retry ops cfg step_number step_key (step step_number) drv
             (Some step_description) 2 test_result w of
        (Some True, r1, w1) \<Rightarrow> lks_steps ops step cfg drv rest r1 w1
      | (other, r1, w1) \<Rightarrow> \<lparr>exit_code = 1, final_result = r1, final_state = w1\<rparr>)"

text \<open>The \<open>finally\<close> clause: \<open>driver.quit()\<close> when a driver exists; its exceptions are
  dropped.\<close>

definition quit_driver :: "'w ops \<Rightarrow> webdriver option \<Rightarrow> 'w run \<Rightarrow> 'w run" where
  "quit_driver ops drv out =
     (case drv of
        None \<Rightarrow> out
      | Some d \<Rightarrow> out\<lparr>final_state := driver_quit ops (final_state out)\<rparr>)"

definition lks_main :: "'w ops \<Rightarrow> (nat \<Rightarrow> 'w action) \<Rightarrow> config \<Rightarrow> 'w \<Rightarrow> 'w run" where
  "lks_main ops step cfg w =
     (let test_result = TestResult (time_time ops w) in
      if py_not (username cfg) \<or> py_not (password cfg)
      then lks_general_error ops cfg None missing_credentials test_result w
      else (case build_driver ops w of
              (Inl e, w1) \<Rightarrow> lks_general_error ops cfg None e test_result w1
            | (Inr d, w1) \<Rightarrow>
                quit_driver ops (Some d)
                  (lks_steps ops step cfg (Some d) lks_step_list test_result w1)))"

section \<open>itrans.py: main (379-503)\<close>

text \<open>A run of itrans.py also leaves the \<open>ItransTest\<close> object.\<close>

record 'w itrans_run = "'w run" +
  final_test :: itrans_test

text \<open>How one of the five step blocks ends: the step passed and \<open>main\<close> goes on; the failure
  was reported and \<open>main\<close> returns 1; or the handler itself raised, which the outer
  \<open>except Exception\<close> of \<open>main\<close> catches.\<close>

datatype 'w step_outcome =
    Passed test_result 'w
  | Reported test_result 'w
  | Raised exn test_result 'w

text \<open>
  One step block, e.g. lines 418-430: \<open>t0\<close>, the call, \<open>add_step(..., "1", ...)\<close>, and in the
  handler the error text, the screenshot (not guarded: an exception of \<open>get_screenshot_b64\<close>
  leaves the handler before \<open>add_step\<close>), \<open>add_step(..., "0", ...)\<close>, the alert,
  \<open>finalize\<close> and the printed report. The five blocks differ in the step function, the
  number and the key only.
\<close>

definition itrans_step ::
  "'w ops \<Rightarrow> config \<Rightarrow> nat \<Rightarrow> pystr \<Rightarrow> 'w action \<Rightarrow> test_result \<Rightarrow> 'w \<Rightarrow> 'w step_outcome" where
  "itrans_step ops cfg step_number step_key action test_result w =
     (let t0 = time_time ops w in
      case action w of
        (Inr u, w1) \<Rightarrow>
          Passed (add_step test_result step_key (ascii ''1'') (time_time ops w1 - t0)) w1
      | (Inl e, w1) \<Rightarrow>
          (let err = step_error_text step_number (format_exception_full ops e) in
           case get_screenshot_b64 ops w1 of
             (Inl e2, w2) \<Rightarrow> Raised e2 test_result w2
           | (Inr ss_b64, w2) \<Rightarrow>
               (let r1 = add_step test_result step_key (ascii ''0'') (time_time ops w2 - t0);
                    r2 = set_screenshot_b64 r1 ss_b64;
                    w3 = send_telegram_alert ops
                           \<lparr>tg_token = telegram_token cfg, tg_chat_id = telegram_chat_id cfg,
                            tg_text = err, tg_screenshot_b64 = Some ss_b64,
                            tg_step_number = None, tg_step_description = None\<rparr> w2;
                    r3 = finalize r2 (time_time ops w3) False
                           (failed_at_step_text step_number) (Some err);
                    w4 = print_json ops (to_dict r3) w3
                in Reported r3 w4)))"

text \<open>The outer \<open>except Exception\<close> block, lines 484-497; here the screenshot is guarded.\<close>

definition itrans_critical ::
  "'w ops \<Rightarrow> config \<Rightarrow> exn \<Rightarrow> itrans_test \<Rightarrow> test_result \<Rightarrow> 'w \<Rightarrow> 'w itrans_run" where
  "itrans_critical ops cfg e test test_result w =
     (let err_text = critical_error_text (format_exception_full ops e);
          (ss_b64, r1, w1) =
            (case driver test of
               None \<Rightarrow> (None, test_result, w)
             | Some d \<Rightarrow>
                 (case get_screenshot_b64 ops w of
                    (Inl e', w') \<Rightarrow> (None, test_result, w')
                  | (Inr b64, w') \<Rightarrow> (Some b64, set_screenshot_b64 test_result b64, w')));
          w2 = send_telegram_alert ops
                 \<lparr>tg_token = telegram_token cfg, tg_chat_id = telegram_chat_id cfg,
                  tg_text = err_text, tg_screenshot_b64 = ss_b64,
                  tg_step_number = None, tg_step_description = None\<rparr> w1;
          r2 = finalize r1 (time_time ops w2) False critical_failed_text (Some err_text);
          w3 = print_json ops (to_dict r2) w2
      in \<lparr>exit_code = 1, final_result = r2, final_state = w3, final_test = test\<rparr>)"

text \<open>The blocks of steps 2 to 5 (lines 417-477) with their number and key, in the order of
  the source: coordinator, analytics, resources, sales.\<close>

definition itrans_later_steps :: "(nat \<times> pystr) list" where
  "itrans_later_steps =
     [(2, ascii ''test_02_open_coordinator_module''),
      (3, ascii ''test_03_open_analytics_module''),
      (4, ascii ''test_04_open_resources_module''),
      (5, ascii ''test_05_open_sales_module'')]"

text \<open>Lines 417-482: the remaining blocks in turn, then the success path. \<open>step n test\<close> is
  the step function of step \<open>n\<close> applied to the \<open>ItransTest\<close> object.\<close>

fun itrans_steps ::
  "'w ops \<Rightarrow> (nat \<Rightarrow> itrans_test \<Rightarrow> 'w action) \<Rightarrow> config \<Rightarrow> itrans_test \<Rightarrow> (nat \<times> pystr) list
     \<Rightarrow> test_result \<Rightarrow> 'w \<Rightarrow> 'w itrans_run" where
  "itrans_steps ops step cfg test [] test_result w =
     (let r = finalize test_result (time_time ops w) True success_text None;
          w1 = print_json ops (to_dict r) w
      in \<lparr>exit_code = 0, final_result = r, final_state = w1, final_test = test\<rparr>)"
| "itrans_steps ops step cfg test ((step_number, step_key) # rest) test_result w =
     (case itrans_step ops cfg step_number step_key (step step_number test) test_result w of
        Passed r1 w1 \<Rightarrow> itrans_steps ops step cfg test rest r1 w1
      | Reported r1 w1 \<Rightarrow>
          \<lparr>exit_code = 1, final_result = r1, final_state = w1, final_test = test\<rparr>
      | Raised e r1 w1 \<Rightarrow> itrans_critical ops cfg e test r1 w1)"

text \<open>The \<open>finally\<close> clause of itrans.py.\<close>

definition itrans_quit :: "'w ops \<Rightarrow> webdriver option \<Rightarrow> 'w itrans_run \<Rightarrow> 'w itrans_run" where
  "itrans_quit ops drv out =
     (case drv of
        None \<Rightarrow> out
      | Some d \<Rightarrow> out\<lparr>final_state := driver_quit ops (final_state out)\<rparr>)"

text \<open>
  \<open>main\<close>. Step 1 (lines 398-415) is the block above with the banner check switched off
  before the call and switched on again after the call has returned; when the call raises,
  the assignment of line 405 is skipped.
\<close>

definition itrans_main ::
  "'w ops \<Rightarrow> (nat \<Rightarrow> itrans_test \<Rightarrow> 'w action) \<Rightarrow> config \<Rightarrow> 'w \<Rightarrow> 'w itrans_run" where
  "itrans_main ops step cfg w =
     (let test_result = TestResult (time_time ops w);
          test = ItransTest
      in if py_not (username cfg) \<or> py_not (password cfg)
         then itrans_critical ops cfg missing_credentials test test_result w
         else (case build_driver ops w of
                 (Inl e, w1) \<Rightarrow> itrans_critical ops cfg e test test_result w1
               | (Inr d, w1) \<Rightarrow>
                   (let test1 = test\<lparr>driver := Some d, check_error_banner := False\<rparr> in
                    itrans_quit ops (Some d)
                      (case itrans_step ops cfg 1 (ascii ''test_01_open_and_login'')
                              (step 1 test1) test_result w1 of
                         Passed r1 w2 \<Rightarrow>
                           itrans_steps ops step cfg (test1\<lparr>check_error_banner := True\<rparr>)
                             itrans_later_steps r1 w2
                       | Reported r1 w2 \<Rightarrow>
                           \<lparr>exit_code = 1, final_result = r1, final_state = w2,
                            final_test = test1\<rparr>
                       | Raised e r1 w2 \<Rightarrow> itrans_critical ops cfg e test1 r1 w2))))"

section \<open>itrans\_zd.py: execute\_step (587-611)\<close>

text \<open>
  The local function \<open>execute_step(step_number, step_key, action, before, after)\<close> of
  \<open>main\<close>: \<open>before\<close> and \<open>after\<close> are optional closures on the \<open>ItransTest\<close> object; \<open>after\<close>
  runs only when \<open>action\<close> has returned. The result is \<open>Inr\<close> of the returned boolean, or
  \<open>Inl\<close> of the exception of the unguarded screenshot, each with the objects and the state.
\<close>

definition execute_step ::
  "'w ops \<Rightarrow> config \<Rightarrow> nat \<Rightarrow> pystr \<Rightarrow> (itrans_test \<Rightarrow> 'w action)
     \<Rightarrow> (itrans_test \<Rightarrow> itrans_test) option \<Rightarrow> (itrans_test \<Rightarrow> itrans_test) option
     \<Rightarrow> itrans_test \<Rightarrow> test_result \<Rightarrow> 'w \<Rightarrow> (exn + bool) \<times> itrans_test \<times> test_result \<times> 'w" where
  "execute_step ops cfg step_number step_key action before after test test_result w =
     (let t0 = time_time ops w;
          test1 = (case before of None \<Rightarrow> test | Some f \<Rightarrow> f test)
      in case action test1 w of
           (Inr u, w1) \<Rightarrow>
             (let test2 = (case after of None \<Rightarrow> test1 | Some g \<Rightarrow> g test1) in
              (Inr True, test2,
               add_step test_result step_key (ascii ''1'') (time_time ops w1 - t0), w1))
         | (Inl e, w1) \<Rightarrow>
             (let err = step_error_text step_number (str_exn e) in
              case get_screenshot_b64 ops w1 of
                (Inl e2, w2) \<Rightarrow> (Inl e2, test1, test_result, w2)
              | (Inr ss_b64, w2) \<Rightarrow>
                  (let r1 = add_step test_result step_key (ascii ''0'') (time_time ops w2 - t0);
                       r2 = set_screenshot_b64 r1 ss_b64;
                       w3 = send_telegram_alert ops
                              \<lparr>tg_token = telegram_token cfg, tg_chat_id = telegram_chat_id cfg,
                               tg_text = err, tg_screenshot_b64 = Some ss_b64,
                               tg_step_number = None, tg_step_description = None\<rparr> w2;
                       r3 = finalize r2 (time_time ops w3) False
                              (failed_at_step_text step_number) (Some err);
                       w4 = print_json ops (to_dict r3) w3
                   in (Inr False, test1, r3, w4))))"

text \<open>The call for step 1, lines 614-620: \<open>before\<close> switches the banner check off, \<open>after\<close>
  switches it on.\<close>

definition execute_login_step ::
  "'w ops \<Rightarrow> config \<Rightarrow> (itrans_test \<Rightarrow> 'w action) \<Rightarrow> itrans_test \<Rightarrow> test_result \<Rightarrow> 'w
     \<Rightarrow> (exn + bool) \<times> itrans_test \<times> test_result \<times> 'w" where
  "execute_login_step ops cfg action test test_result w =
     execute_step ops cfg 1 (ascii ''step_01_open_and_login'') action
       (Some (\<lambda>t. t\<lparr>check_error_banner := False\<rparr>))
       (Some (\<lambda>t. t\<lparr>check_error_banner := True\<rparr>)) test test_result w"

text \<open>Runs of the two \<open>main\<close> functions in the scripted browser: every step function call
  takes the next entry of the script.\<close>

definition sim_itrans_main :: "(exn + unit) list \<Rightarrow> exn + pystr \<Rightarrow> sim itrans_run" where
  "sim_itrans_main script capture =
     itrans_main sim_ops (\<lambda>n test. sim_call) sim_config (sim_start script capture)"

definition sim_lks_main :: "(exn + unit) list \<Rightarrow> exn + pystr \<Rightarrow> sim run" where
  "sim_lks_main script capture =
     lks_main sim_ops (\<lambda>n. sim_call) sim_config (sim_start script capture)"

text \<open>A browser session that is lost during the first step: the step function and the
  screenshot both raise.\<close>

definition session_lost :: exn where
  "session_lost = WebDriverException (ascii ''invalid session id'')"

section \<open>Runs in which every step passes\<close>

text \<open>
  \<open>all_return actions w\<close>: called one after the other from state \<open>w\<close>, each action returns
  without an exception. \<open>retried ops drv m action\<close> is \<open>action\<close> given up to \<open>m\<close> further
  tries, each after a recovery: it returns as soon as one try returns and raises what the
  last try raises. A step of lks.py passes when its closure, retried twice, returns.
\<close>

fun all_return :: "'w action list \<Rightarrow> 'w \<Rightarrow> bool" where
  "all_return [] w = True"
| "all_return (a # as) w = (case a w of (Inr u, w1) \<Rightarrow> all_return as w1 | (Inl e, w1) \<Rightarrow> False)"

fun retried :: "'w ops \<Rightarrow> webdriver option \<Rightarrow> nat \<Rightarrow> 'w action \<Rightarrow> 'w action" where
  "retried ops drv 0 action w = action w"
| "retried ops drv (Suc m) action w =
     (case action w of
        (Inr u, w1) \<Rightarrow> (Inr u, w1)
      | (Inl e, w1) \<Rightarrow> retried ops drv m action (refresh_and_wait ops drv w1))"

text \<open>The state after the actions have run one after the other.\<close>

fun after_all :: "'w action list \<Rightarrow> 'w \<Rightarrow> 'w" where
  "after_all [] w = w"
| "after_all (a # as) w = after_all as (snd (a w))"

text \<open>What a report consumer reads from \<open>steps\<close>: the step names in order, each with its
  status.\<close>

definition step_statuses :: "test_result \<Rightarrow> (pystr \<times> pystr) list" where
  "step_statuses r = map (\<lambda>s. (fst s, step_status (snd s))) (steps r)"

section \<open>Aggregated status under add\_step\<close>

lemma ascii_eq_iff [simp]: "ascii s = ascii t \<longleftrightarrow> s = t"
  by (simp add: ascii_def inj_on_def)

lemma add_steps_Nil [simp]: "add_steps r [] = r"
  by (simp add: add_steps_def)

lemma add_steps_snoc [simp]:
  "add_steps r (calls @ [c]) = add_step (add_steps r calls) (fst c) (fst (snd c)) (snd (snd c))"
  by (simp add: add_steps_def split: prod.splits)

lemma success_add_step:
  "success (add_step r n s d) = (if s = ascii ''0'' then False else success r)"
  by (simp add: add_step_def Let_def)

lemma status_add_step:
  "status (add_step r n s d) = (if s = ascii ''0'' then ascii ''0'' else status r)"
  by (simp add: add_step_def Let_def)

lemma success_add_steps:
  "success (add_steps r calls) \<longleftrightarrow> success r \<and> (\<forall>c \<in> set calls. fst (snd c) \<noteq> ascii ''0'')"
  by (induction calls rule: rev_induct) (auto simp: success_add_step)

lemma status_add_steps:
  "status (add_steps r calls) =
     (if \<exists>c \<in> set calls. fst (snd c) = ascii ''0'' then ascii ''0'' else status r)"
  by (induction calls rule: rev_induct) (auto simp: status_add_step)

text \<open>
  C9. On a fresh \<open>TestResult\<close>, after any sequence of \<open>add_step\<close> calls, \<open>success\<close> is \<open>False\<close>
  exactly when some call recorded status \<open>"0"\<close>, and then \<open>status\<close> is \<open>"0"\<close> (otherwise it is
  still \<open>"1"\<close>). Recording a further step with status \<open>"1"\<close> leaves \<open>success\<close> and \<open>status\<close> as
  they were, so a failure is never undone by \<open>add_step\<close>; \<open>set_screenshot_b64\<close> does not touch
  them either. \<open>finalize\<close> is the one operation that stores the \<open>success\<close> it is given, so it
  can turn a failed result back to \<open>True\<close>.
\<close>

theorem add_step_failure_monotone:
  "(\<not> success (add_steps (TestResult t0) calls)
      \<longleftrightarrow> (\<exists>c \<in> set calls. fst (snd c) = ascii ''0''))
   \<and> (status (add_steps (TestResult t0) calls) =
        (if \<exists>c \<in> set calls. fst (snd c) = ascii ''0'' then ascii ''0'' else ascii ''1''))
   \<and> success (add_step r n (ascii ''1'') d) = success r
   \<and> status (add_step r n (ascii ''1'') d) = status r
   \<and> (\<not> success r \<longrightarrow> \<not> success (add_step r n s d))
   \<and> success (set_screenshot_b64 r png) = success r
   \<and> success (finalize r e ok m x) = ok"
proof -
  have fresh: "success (TestResult t0)" "status (TestResult t0) = ascii ''1''"
    by (simp_all add: TestResult_def)
  have "\<not> success (add_steps (TestResult t0) calls)
          \<longleftrightarrow> (\<exists>c \<in> set calls. fst (snd c) = ascii ''0'')"
    using fresh by (simp add: success_add_steps)
  moreover have "status (add_steps (TestResult t0) calls) =
        (if \<exists>c \<in> set calls. fst (snd c) = ascii ''0'' then ascii ''0'' else ascii ''1'')"
    using fresh by (simp add: status_add_steps)
  moreover have "success (add_step r n (ascii ''1'') d) = success r"
    by (simp add: success_add_step)
  moreover have "status (add_step r n (ascii ''1'') d) = status r"
    by (simp add: status_add_step)
  moreover have "\<not> success r \<longrightarrow> \<not> success (add_step r n s d)"
    by (simp add: success_add_step)
  moreover have "success (set_screenshot_b64 r png) = success r"
    by (simp add: set_screenshot_b64_def)
  moreover have "success (finalize r e ok m x) = ok"
    by (simp add: finalize_def)
  ultimately show ?thesis by blast
qed

text \<open>The statement at a concrete run: a failed step followed by a passed one, then a
  \<open>finalize(True, ...)\<close> that overwrites the aggregate.\<close>

theorem add_step_failure_monotone_witness:
  "\<not> success (add_steps (TestResult 0)
        [(ascii ''a'', ascii ''0'', 1), (ascii ''b'', ascii ''1'', 2)])
   \<and> status (add_steps (TestResult 0)
        [(ascii ''a'', ascii ''0'', 1), (ascii ''b'', ascii ''1'', 2)]) = ascii ''0''
   \<and> \<not> success (add_step (add_step (TestResult 0) (ascii ''a'') (ascii ''0'') 1)
                  (ascii ''b'') (ascii ''1'') 2)
   \<and> success (finalize (add_step (TestResult 0) (ascii ''a'') (ascii ''0'') 1) 3 True [] None)"
  using add_step_failure_monotone
    [where ?t0.0 = 0
       and calls = "[(ascii ''a'', ascii ''0'', 1), (ascii ''b'', ascii ''1'', 2)]"
       and r = "add_step (TestResult 0) (ascii ''a'') (ascii ''0'') 1"
       and n = "ascii ''b''" and d = 2 and s = "ascii ''0''"
       and e = 3 and ok = True and m = "[]" and x = None]
  by (simp add: success_add_step)

section \<open>Strings\<close>

lemma py_startswith_iff: "py_startswith hay needle \<longleftrightarrow> (\<exists>s. hay = needle @ s)"
  by (induction hay needle rule: py_startswith.induct) auto

lemma py_in_iff: "py_in needle hay \<longleftrightarrow> (\<exists>p s. hay = p @ needle @ s)"
proof (induction hay)
  case Nil
  then show ?case by auto
next
  case (Cons h hs)
  show ?case
  proof
    assume "py_in needle (h # hs)"
    then consider "py_startswith (h # hs) needle" | "py_in needle hs" by auto
    then show "\<exists>p s. h # hs = p @ needle @ s"
    proof cases
      case 1
      then obtain s where "h # hs = needle @ s" by (auto simp: py_startswith_iff)
      then have "h # hs = [] @ needle @ s" by simp
      then show ?thesis by blast
    next
      case 2
      with Cons obtain p s where "hs = p @ needle @ s" by auto
      then have "h # hs = (h # p) @ needle @ s" by simp
      then show ?thesis by blast
    qed
  next
    assume "\<exists>p s. h # hs = p @ needle @ s"
    then obtain p s where eq: "h # hs = p @ needle @ s" by auto
    show "py_in needle (h # hs)"
    proof (cases p)
      case Nil
      with eq have "py_startswith (h # hs) needle" by (auto simp: py_startswith_iff)
      then show ?thesis by simp
    next
      case (Cons a p')
      with eq have "hs = p' @ needle @ s" by simp
      with Cons.IH have "py_in needle hs" by blast
      then show ?thesis by simp
    qed
  qed
qed

lemma py_in_trans: "py_in a b \<Longrightarrow> py_in b c \<Longrightarrow> py_in a c"
proof -
  assume "py_in a b" "py_in b c"
  then obtain p s p' s' where "b = p @ a @ s" "c = p' @ b @ s'" by (auto simp: py_in_iff)
  then have "c = (p' @ p) @ a @ (s @ s')" by simp
  then show ?thesis unfolding py_in_iff by blast
qed

lemma error_word_in_phrase: "py_in error_word error_occurred_phrase"
  by (simp add: error_word_def error_occurred_phrase_def)

lemma phrase_implies_word: "py_in error_occurred_phrase t \<Longrightarrow> py_in error_word t"
  using error_word_in_phrase py_in_trans by blast

section \<open>The banner query when every element answers\<close>

lemma visible_alerts_observed:
  "\<forall>a \<in> set alerts. observed a \<Longrightarrow> visible_alerts alerts = Inr (filter shown alerts)"
proof (induction alerts)
  case Nil
  then show ?case by simp
next
  case (Cons a as)
  then obtain b where "is_displayed a = Inr b"
    by (cases "is_displayed a") (auto simp: observed_def)
  with Cons show ?case by (auto simp: shown_def)
qed

lemma scan_alerts_observed:
  "\<forall>a \<in> set alerts. observed a \<Longrightarrow>
   scan_alerts lower alerts =
     (case find (is_error_alert lower) alerts of
        None \<Rightarrow> Inr ()
      | Some a \<Rightarrow> Inl (Exception (banner_prefix @ alert_text a)))"
proof (induction alerts)
  case Nil
  then show ?case by simp
next
  case (Cons a as)
  then obtain c t where "class_attribute a = Inr c" "element_text a = Inr t"
    by (cases "class_attribute a"; cases "element_text a") (auto simp: observed_def)
  with Cons show ?case
    by (auto simp: is_error_alert_def alert_classes_def alert_text_def Let_def
             dest: phrase_implies_word)
qed

lemma query_banner_observed:
  "\<forall>a \<in> set alerts. observed a \<Longrightarrow>
   query_banner lower (Inr alerts) =
     (case find (\<lambda>a. shown a \<and> is_error_alert lower a) alerts of
        None \<Rightarrow> Inr ()
      | Some a \<Rightarrow> Inl (Exception (banner_prefix @ alert_text a)))"
proof -
  assume obs: "\<forall>a \<in> set alerts. observed a"
  have f: "find P (filter Q xs) = find (\<lambda>a. Q a \<and> P a) xs" for P Q and xs :: "web_element list"
    by (induction xs) auto
  from obs have "\<forall>a \<in> set (filter shown alerts). observed a" by simp
  then show ?thesis
    using obs by (simp add: query_banner_def visible_alerts_observed scan_alerts_observed f)
qed

lemma raise_if_error_banner_not_driver_error:
  "raise_if_error_banner lower self pg = Inl e \<Longrightarrow> \<not> is_WebDriverException e"
  by (auto simp: raise_if_error_banner_def split: if_splits sum.splits)


lemma find_SomeD: "find P xs = Some a \<Longrightarrow> a \<in> set xs \<and> P a"
  by (induction xs) (auto split: if_splits)

section \<open>What the banner check raises\<close>

lemma upper_case_class_lowered: "alert_classes lower_ascii_cyrillic upper_case_class_alert = ascii ''alert alert-error show''"
  by (simp add: alert_classes_def upper_case_class_alert_def lower_ascii_cyrillic_def ascii_def or_empty_def)

lemma upper_case_class_is_error: "is_error_alert lower_ascii_cyrillic upper_case_class_alert"
  by (simp add: is_error_alert_def upper_case_class_lowered alert_error_marker_def ascii_def)

lemma upper_case_class_text: "alert_text upper_case_class_alert = ascii ''saved''"
  by (simp add: alert_text_def upper_case_class_alert_def or_empty_def py_strip_def py_isspace_def ascii_def)



lemma example_alerts_observed: "observed hidden_error_alert" "observed upper_case_class_alert" "shown upper_case_class_alert"
  by (simp_all add: observed_def shown_def hidden_error_alert_def upper_case_class_alert_def)

lemma example_test_enabled: "check_error_banner example_test" "driver example_test \<noteq> None"
  by (simp_all add: example_test_def)

lemma visible_alerts_find:
  "visible_alerts alerts =
     (case find (\<lambda>a. isl (is_displayed a)) alerts of
        Some a \<Rightarrow> Inl (projl (is_displayed a))
      | None \<Rightarrow> Inr (filter shown alerts))"
proof (induction alerts)
  case Nil
  then show ?case by simp
next
  case (Cons a as)
  show ?case
  proof (cases "is_displayed a")
    case (Inl e)
    then show ?thesis by simp
  next
    case (Inr b)
    then show ?thesis
      using Cons by (cases "find (\<lambda>a. isl (is_displayed a)) as") (simp_all add: shown_def)
  qed
qed

lemma scan_alerts_find:
  "scan_alerts lower alerts =
     (case find (\<lambda>a. alert_finding lower a \<noteq> Clean) alerts of
        None \<Rightarrow> Inr ()
      | Some a \<Rightarrow>
          (case alert_finding lower a of
             Clean \<Rightarrow> Inr ()
           | Banner t \<Rightarrow> Inl (Exception (banner_prefix @ t))
           | QueryError e \<Rightarrow> Inl e))"
proof (induction alerts)
  case Nil
  then show ?case by simp
next
  case (Cons a as)
  show ?case
  proof (cases "class_attribute a")
    case (Inl e)
    then show ?thesis by (simp add: alert_finding_def)
  next
    case c: (Inr c)
    show ?thesis
    proof (cases "element_text a")
      case (Inl e)
      with c show ?thesis by (simp add: alert_finding_def)
    next
      case t: (Inr t)
      show ?thesis
      proof (cases "is_error_alert lower a")
        case True
        with c t show ?thesis
          by (auto simp: alert_finding_def Let_def is_error_alert_def alert_classes_def
                alert_text_def)
      next
        case False
        with c t Cons show ?thesis
          by (auto simp: alert_finding_def Let_def is_error_alert_def alert_classes_def
                alert_text_def dest: phrase_implies_word)
      qed
    qed
  qed
qed

lemma raise_if_error_banner_finding:
  assumes "check_error_banner self" "driver self \<noteq> None"
  shows "raise_if_error_banner lower self pg =
     (case page_finding lower pg of
        Clean \<Rightarrow> Inr ()
      | Banner t \<Rightarrow> Inl (Exception (banner_prefix @ t))
      | QueryError e \<Rightarrow> if is_WebDriverException e then Inr () else Inl e)"
proof -
  have r: "raise_if_error_banner lower self pg =
     (case query_banner lower pg of
        Inl e \<Rightarrow> if is_WebDriverException e then Inr () else Inl e
      | Inr u \<Rightarrow> Inr ())"
    using assms by (auto simp: raise_if_error_banner_def)
  show ?thesis
  proof (cases pg)
    case (Inl e)
    then show ?thesis unfolding r by (simp add: query_banner_def page_finding_def)
  next
    case (Inr alerts)
    show ?thesis
    proof (cases "find (\<lambda>a. isl (is_displayed a)) alerts")
      case (Some a)
      with Inr show ?thesis unfolding r
        by (simp add: query_banner_def page_finding_def visible_alerts_find)
    next
      case None
      show ?thesis
      proof (cases "find (\<lambda>a. alert_finding lower a \<noteq> Clean) (filter shown alerts)")
        case n: None
        with None Inr show ?thesis unfolding r
          by (simp add: query_banner_def page_finding_def visible_alerts_find scan_alerts_find)
      next
        case s: (Some a)
        with None Inr show ?thesis unfolding r
          by (cases "alert_finding lower a")
             (simp_all add: query_banner_def page_finding_def visible_alerts_find
                scan_alerts_find)
      qed
    qed
  qed
qed

lemma raise_if_error_banner_disabled:
  "\<not> check_error_banner self \<or> driver self = None \<Longrightarrow> raise_if_error_banner lower self pg = Inr ()"
  by (auto simp: raise_if_error_banner_def)

lemma find_first:
  "\<forall>b \<in> set pre. \<not> P b \<Longrightarrow> P a \<Longrightarrow> find P (pre @ a # post) = Some a"
  by (induction pre) simp_all

lemma find_none: "\<forall>b \<in> set xs. \<not> P b \<Longrightarrow> find P xs = None"
  by (induction xs) simp_all

text \<open>The first visibility query that raises decides.\<close>

lemma page_finding_display_error:
  assumes "\<forall>b \<in> set pre. \<not> isl (is_displayed b)" "is_displayed a = Inl x"
  shows "page_finding lower (Inr (pre @ a # post)) = QueryError x"
  using find_first [of pre "\<lambda>a. isl (is_displayed a)" a post] assms
  by (simp add: page_finding_def)

text \<open>With every visibility query answered, the first shown alert that is not clean decides.\<close>

lemma page_finding_first_shown:
  assumes "\<forall>b \<in> set (pre @ a # post). \<not> isl (is_displayed b)"
    and "\<forall>b \<in> set pre. shown b \<longrightarrow> alert_finding lower b = Clean"
    and "shown a" "alert_finding lower a \<noteq> Clean"
  shows "page_finding lower (Inr (pre @ a # post)) = alert_finding lower a"
proof -
  have n: "find (\<lambda>a. isl (is_displayed a)) (pre @ a # post) = None"
    using assms(1) by (rule find_none)
  have "\<forall>b \<in> set (filter shown pre). \<not> alert_finding lower b \<noteq> Clean"
    using assms(2) by simp
  from find_first [OF this, of a "filter shown post"] assms(3,4)
  have "find (\<lambda>a. alert_finding lower a \<noteq> Clean) (filter shown (pre @ a # post)) = Some a"
    by simp
  with n show ?thesis by (simp add: page_finding_def)
qed

lemma alert_finding_Clean:
  "\<not> isl (class_attribute b) \<Longrightarrow> \<not> isl (element_text b) \<Longrightarrow> \<not> is_error_alert lower b
     \<Longrightarrow> alert_finding lower b = Clean"
  by (cases "class_attribute b"; cases "element_text b") (simp_all add: alert_finding_def)

lemma alert_finding_Banner:
  "\<not> isl (class_attribute b) \<Longrightarrow> \<not> isl (element_text b) \<Longrightarrow> is_error_alert lower b
     \<Longrightarrow> alert_finding lower b = Banner (alert_text b)"
  by (cases "class_attribute b"; cases "element_text b") (simp_all add: alert_finding_def)

lemma alert_finding_QueryError:
  "class_attribute b = Inl x \<or> (\<not> isl (class_attribute b) \<and> element_text b = Inl x)
     \<Longrightarrow> alert_finding lower b = QueryError x"
  by (cases "class_attribute b"; cases "element_text b") (auto simp: alert_finding_def)

lemma alert_finding_BannerD:
  "alert_finding lower b = Banner t \<Longrightarrow>
     \<not> isl (class_attribute b) \<and> \<not> isl (element_text b) \<and> is_error_alert lower b \<and> t = alert_text b"
  by (cases "class_attribute b"; cases "element_text b") (auto simp: alert_finding_def split: if_splits)

lemma alert_finding_QueryErrorD:
  "alert_finding lower b = QueryError x \<Longrightarrow> class_attribute b = Inl x \<or> element_text b = Inl x"
  by (cases "class_attribute b"; cases "element_text b") (auto simp: alert_finding_def split: if_splits)

text \<open>Where a banner finding and a query-error finding come from.\<close>

lemma page_finding_BannerD:
  assumes "page_finding lower (Inr alerts) = Banner t"
  shows "(\<forall>b \<in> set alerts. \<not> isl (is_displayed b))
     \<and> (\<exists>a \<in> set alerts. shown a \<and> \<not> isl (class_attribute a) \<and> \<not> isl (element_text a)
            \<and> is_error_alert lower a \<and> t = alert_text a)"
proof (cases "find (\<lambda>a. isl (is_displayed a)) alerts")
  case (Some a)
  with assms show ?thesis by (simp add: page_finding_def)
next
  case None
  then have d: "\<forall>b \<in> set alerts. \<not> isl (is_displayed b)" by (simp add: find_None_iff)
  show ?thesis
  proof (cases "find (\<lambda>a. alert_finding lower a \<noteq> Clean) (filter shown alerts)")
    case n: None
    with None assms show ?thesis by (simp add: page_finding_def)
  next
    case s: (Some a)
    with None assms have b: "alert_finding lower a = Banner t" by (simp add: page_finding_def)
    from find_SomeD [OF s] have "a \<in> set alerts" "shown a" by simp_all
    with alert_finding_BannerD [OF b] d show ?thesis by blast
  qed
qed

lemma page_finding_QueryErrorD:
  assumes "page_finding lower (Inr alerts) = QueryError x"
  shows "\<exists>a \<in> set alerts. is_displayed a = Inl x \<or> class_attribute a = Inl x \<or> element_text a = Inl x"
proof (cases "find (\<lambda>a. isl (is_displayed a)) alerts")
  case (Some a)
  from find_SomeD [OF Some] have a: "a \<in> set alerts" "isl (is_displayed a)" by simp_all
  from Some assms have "projl (is_displayed a) = x" by (simp add: page_finding_def)
  with a(2) have "is_displayed a = Inl x" by (cases "is_displayed a") simp_all
  with a(1) show ?thesis by blast
next
  case None
  show ?thesis
  proof (cases "find (\<lambda>a. alert_finding lower a \<noteq> Clean) (filter shown alerts)")
    case n: None
    with None assms show ?thesis by (simp add: page_finding_def)
  next
    case s: (Some a)
    with None assms have b: "alert_finding lower a = QueryError x" by (simp add: page_finding_def)
    from find_SomeD [OF s] have "a \<in> set alerts" by simp
    with alert_finding_QueryErrorD [OF b] show ?thesis by blast
  qed
qed

lemma raise_if_error_banner_origin:
  assumes "raise_if_error_banner lower self (Inr alerts) = Inl e"
  shows "((\<forall>b \<in> set alerts. \<not> isl (is_displayed b))
          \<and> (\<exists>a \<in> set alerts. shown a \<and> \<not> isl (class_attribute a) \<and> \<not> isl (element_text a)
                \<and> is_error_alert lower a \<and> e = Exception (banner_prefix @ alert_text a)))
       \<or> (\<not> is_WebDriverException e
          \<and> (\<exists>a \<in> set alerts. is_displayed a = Inl e \<or> class_attribute a = Inl e
                \<or> element_text a = Inl e))"
proof -
  from assms have en: "check_error_banner self" "driver self \<noteq> None"
    by (auto simp: raise_if_error_banner_def split: if_splits)
  note eq = raise_if_error_banner_finding [OF en, of lower "Inr alerts"]
  show ?thesis
  proof (cases "page_finding lower (Inr alerts)")
    case Clean
    with eq assms show ?thesis by simp
  next
    case (Banner t)
    with eq assms have "e = Exception (banner_prefix @ t)" by simp
    with page_finding_BannerD [OF Banner] show ?thesis by blast
  next
    case (QueryError x)
    with eq assms have "\<not> is_WebDriverException x" "e = x" by (simp_all split: if_splits)
    with page_finding_QueryErrorD [OF QueryError] show ?thesis by blast
  qed
qed


lemma raise_if_error_banner_display_error:
  assumes "\<forall>b \<in> set pre. \<not> isl (is_displayed b)" "is_displayed c = Inl y"
    "is_WebDriverException y"
  shows "raise_if_error_banner lower self (Inr (pre @ c # post)) = Inr ()"
proof (cases "check_error_banner self \<and> driver self \<noteq> None")
  case True
  then show ?thesis
    using assms(3)
    by (simp add: raise_if_error_banner_finding page_finding_display_error [OF assms(1,2)])
next
  case False
  then show ?thesis by (simp add: raise_if_error_banner_disabled)
qed

lemma pre_clean:
  assumes "\<forall>b \<in> set pre. shown b \<longrightarrow>
       \<not> isl (class_attribute b) \<and> \<not> isl (element_text b) \<and> \<not> is_error_alert lower b"
  shows "\<forall>b \<in> set pre. shown b \<longrightarrow> alert_finding lower b = Clean"
  using assms alert_finding_Clean by blast

lemma raise_if_error_banner_query_error:
  assumes "check_error_banner self" "driver self \<noteq> None"
    and "\<forall>b \<in> set (pre @ c # post). \<not> isl (is_displayed b)"
    and "\<forall>b \<in> set pre. shown b \<longrightarrow>
       \<not> isl (class_attribute b) \<and> \<not> isl (element_text b) \<and> \<not> is_error_alert lower b"
    and "shown c"
    and "class_attribute c = Inl y \<or> (\<not> isl (class_attribute c) \<and> element_text c = Inl y)"
  shows "raise_if_error_banner lower self (Inr (pre @ c # post))
           = (if is_WebDriverException y then Inr () else Inl y)"
proof -
  have q: "alert_finding lower c = QueryError y" using assms(6) by (rule alert_finding_QueryError)
  then have "alert_finding lower c \<noteq> Clean" by simp
  from page_finding_first_shown [OF assms(3) pre_clean [OF assms(4)] assms(5) this] q
  have "page_finding lower (Inr (pre @ c # post)) = QueryError y" by simp
  then show ?thesis by (simp add: raise_if_error_banner_finding [OF assms(1,2)])
qed

lemma raise_if_error_banner_first_banner:
  assumes "check_error_banner self" "driver self \<noteq> None"
    and "\<forall>b \<in> set (pre @ c # post). \<not> isl (is_displayed b)"
    and "\<forall>b \<in> set pre. shown b \<longrightarrow>
       \<not> isl (class_attribute b) \<and> \<not> isl (element_text b) \<and> \<not> is_error_alert lower b"
    and "shown c" "\<not> isl (class_attribute c)" "\<not> isl (element_text c)" "is_error_alert lower c"
  shows "raise_if_error_banner lower self (Inr (pre @ c # post))
           = Inl (Exception (banner_prefix @ alert_text c))"
proof -
  have q: "alert_finding lower c = Banner (alert_text c)"
    using assms(6-8) by (rule alert_finding_Banner)
  then have "alert_finding lower c \<noteq> Clean" by simp
  from page_finding_first_shown [OF assms(3) pre_clean [OF assms(4)] assms(5) this] q
  have "page_finding lower (Inr (pre @ c # post)) = Banner (alert_text c)" by simp
  then show ?thesis by (simp add: raise_if_error_banner_finding [OF assms(1,2)])
qed

lemma stale_is_driver_error: "is_WebDriverException stale"
  by (simp add: stale_def)

lemma stale_alert_queries:
  "is_displayed stale_alert = Inl stale"
  "shown stale_text_alert" "\<not> isl (is_displayed stale_text_alert)"
  "\<not> isl (class_attribute stale_text_alert)" "element_text stale_text_alert = Inl stale"
  by (simp_all add: stale_alert_def stale_text_alert_def shown_def)

lemma example_alerts_displayed:
  "\<not> isl (is_displayed hidden_error_alert)" "\<not> shown hidden_error_alert"
  "\<not> isl (is_displayed upper_case_class_alert)" "\<not> isl (class_attribute upper_case_class_alert)"
  "\<not> isl (element_text upper_case_class_alert)"
  "\<not> isl (is_displayed upper_case_text_alert)" "shown upper_case_text_alert"
  "\<not> isl (class_attribute upper_case_text_alert)" "\<not> isl (element_text upper_case_text_alert)"
  by (simp_all add: hidden_error_alert_def upper_case_class_alert_def upper_case_text_alert_def
        shown_def)

text \<open>
  C3. With the check enabled and a driver present, and when every query of the alert
  elements returns, \<open>raise_if_error_banner\<close> raises exactly when some shown alert has the
  marker \<open>alert-error\<close> in its lower-cased class attribute or the error word in its
  lower-cased, stripped text (either one is enough), and the exception raised is the banner
  message of such an alert. No driver-level exception ever leaves the check; a driver-level
  exception of \<open>find_elements\<close> gives a normal return; the banner exception is a plain
  \<open>Exception\<close> and is raised through the handler. Alerts whose classes and texts have the same
  image under \<open>lower\<close> are classified alike.

  For every page, the check is decided by what it comes across first. A driver-level
  exception of a visibility query gives a normal return, whatever alerts are on the page. With
  every visibility query answered and the shown alerts before \<open>c\<close> answered and clean, a class
  or text query of the shown alert \<open>c\<close> that raises \<open>y\<close> gives a normal return when \<open>y\<close> is
  driver-level and raises \<open>y\<close> itself otherwise, and a \<open>c\<close> that answers and classifies as an
  error raises the banner message of \<open>c\<close>. So a failed query is never reported as a banner:
  whatever the check raises is either the banner message of a shown alert whose class and text
  queries answered and which classifies as an error, on a page whose visibility queries all
  answered, or an exception that is not driver-level and that one of the queries raised.
\<close>

theorem raise_if_error_banner_detects:
  "(check_error_banner self \<and> driver self \<noteq> None \<and> (\<forall>a \<in> set alerts. observed a) \<longrightarrow>
      ((\<exists>e. raise_if_error_banner lower self (Inr alerts) = Inl e)
         \<longleftrightarrow> (\<exists>a \<in> set alerts. shown a \<and> is_error_alert lower a))
      \<and> (\<forall>e. raise_if_error_banner lower self (Inr alerts) = Inl e \<longrightarrow>
            (\<exists>a \<in> set alerts. shown a \<and> is_error_alert lower a
                \<and> e = Exception (banner_prefix @ alert_text a))))
   \<and> (\<forall>e. raise_if_error_banner lower self pg = Inl e \<longrightarrow> \<not> is_WebDriverException e)
   \<and> (is_WebDriverException x \<longrightarrow> raise_if_error_banner lower self (Inl x) = Inr ())
   \<and> (alert_classes lower a = alert_classes lower b
        \<and> lower (alert_text a) = lower (alert_text b)
        \<longrightarrow> is_error_alert lower a = is_error_alert lower b)
   \<and> (check_error_banner self \<and> driver self \<noteq> None \<longrightarrow>
        raise_if_error_banner lower self pg =
          (case page_finding lower pg of
             Clean \<Rightarrow> Inr ()
           | Banner t \<Rightarrow> Inl (Exception (banner_prefix @ t))
           | QueryError e \<Rightarrow> if is_WebDriverException e then Inr () else Inl e))
   \<and> ((\<forall>b \<in> set pre. \<not> isl (is_displayed b)) \<and> is_displayed c = Inl y
        \<and> is_WebDriverException y \<longrightarrow>
        raise_if_error_banner lower self (Inr (pre @ c # post)) = Inr ())
   \<and> (check_error_banner self \<and> driver self \<noteq> None
        \<and> (\<forall>b \<in> set (pre @ c # post). \<not> isl (is_displayed b))
        \<and> (\<forall>b \<in> set pre. shown b \<longrightarrow>
              \<not> isl (class_attribute b) \<and> \<not> isl (element_text b) \<and> \<not> is_error_alert lower b)
        \<and> shown c
        \<and> (class_attribute c = Inl y \<or> (\<not> isl (class_attribute c) \<and> element_text c = Inl y))
        \<longrightarrow>
        raise_if_error_banner lower self (Inr (pre @ c # post))
          = (if is_WebDriverException y then Inr () else Inl y))
   \<and> (check_error_banner self \<and> driver self \<noteq> None
        \<and> (\<forall>b \<in> set (pre @ c # post). \<not> isl (is_displayed b))
        \<and> (\<forall>b \<in> set pre. shown b \<longrightarrow>
              \<not> isl (class_attribute b) \<and> \<not> isl (element_text b) \<and> \<not> is_error_alert lower b)
        \<and> shown c \<and> \<not> isl (class_attribute c) \<and> \<not> isl (element_text c)
        \<and> is_error_alert lower c
        \<longrightarrow>
        raise_if_error_banner lower self (Inr (pre @ c # post))
          = Inl (Exception (banner_prefix @ alert_text c)))
   \<and> (raise_if_error_banner lower self (Inr alerts) = Inl z \<longrightarrow>
        ((\<forall>b \<in> set alerts. \<not> isl (is_displayed b))
          \<and> (\<exists>a \<in> set alerts. shown a \<and> \<not> isl (class_attribute a) \<and> \<not> isl (element_text a)
                \<and> is_error_alert lower a \<and> z = Exception (banner_prefix @ alert_text a)))
        \<or> (\<not> is_WebDriverException z
            \<and> (\<exists>a \<in> set alerts. is_displayed a = Inl z \<or> class_attribute a = Inl z
                  \<or> element_text a = Inl z)))"
proof -
  have main: "raise_if_error_banner lower self (Inr alerts) =
      (case find (\<lambda>a. shown a \<and> is_error_alert lower a) alerts of
         None \<Rightarrow> Inr ()
       | Some a \<Rightarrow> Inl (Exception (banner_prefix @ alert_text a)))"
    if "check_error_banner self" "driver self \<noteq> None" "\<forall>a \<in> set alerts. observed a"
    using that by (simp add: raise_if_error_banner_def query_banner_observed split: option.splits)
  have iff: "(\<exists>e. raise_if_error_banner lower self (Inr alerts) = Inl e)
         \<longleftrightarrow> (\<exists>a \<in> set alerts. shown a \<and> is_error_alert lower a)"
    if "check_error_banner self" "driver self \<noteq> None" "\<forall>a \<in> set alerts. observed a"
  proof (cases "find (\<lambda>a. shown a \<and> is_error_alert lower a) alerts")
    case None
    then have "\<not> (\<exists>a \<in> set alerts. shown a \<and> is_error_alert lower a)"
      by (simp add: find_None_iff)
    with None show ?thesis by (simp add: main [OF that])
  next
    case (Some a)
    then have "a \<in> set alerts \<and> shown a \<and> is_error_alert lower a"
      using find_SomeD by fastforce
    with Some show ?thesis by (auto simp: main [OF that])
  qed
  have which: "\<exists>a \<in> set alerts. shown a \<and> is_error_alert lower a
                \<and> e = Exception (banner_prefix @ alert_text a)"
    if "check_error_banner self" "driver self \<noteq> None" "\<forall>a \<in> set alerts. observed a"
      and r: "raise_if_error_banner lower self (Inr alerts) = Inl e" for e
  proof (cases "find (\<lambda>a. shown a \<and> is_error_alert lower a) alerts")
    case None
    with r show ?thesis by (simp add: main [OF that(1-3)])
  next
    case (Some a)
    then have "a \<in> set alerts \<and> shown a \<and> is_error_alert lower a"
      using find_SomeD by fastforce
    moreover from Some r have "e = Exception (banner_prefix @ alert_text a)"
      by (simp add: main [OF that(1-3)])
    ultimately show ?thesis by blast
  qed
  have never: "\<forall>e. raise_if_error_banner lower self pg = Inl e \<longrightarrow> \<not> is_WebDriverException e"
    using raise_if_error_banner_not_driver_error by blast
  have swallowed: "is_WebDriverException x \<longrightarrow> raise_if_error_banner lower self (Inl x) = Inr ()"
    by (simp add: raise_if_error_banner_def query_banner_def)
  have caseless: "alert_classes lower a = alert_classes lower b
        \<and> lower (alert_text a) = lower (alert_text b)
        \<longrightarrow> is_error_alert lower a = is_error_alert lower b"
    by (simp add: is_error_alert_def)
  have old: "(check_error_banner self \<and> driver self \<noteq> None \<and> (\<forall>a \<in> set alerts. observed a) \<longrightarrow>
      ((\<exists>e. raise_if_error_banner lower self (Inr alerts) = Inl e)
         \<longleftrightarrow> (\<exists>a \<in> set alerts. shown a \<and> is_error_alert lower a))
      \<and> (\<forall>e. raise_if_error_banner lower self (Inr alerts) = Inl e \<longrightarrow>
            (\<exists>a \<in> set alerts. shown a \<and> is_error_alert lower a
                \<and> e = Exception (banner_prefix @ alert_text a))))
   \<and> (\<forall>e. raise_if_error_banner lower self pg = Inl e \<longrightarrow> \<not> is_WebDriverException e)
   \<and> (is_WebDriverException x \<longrightarrow> raise_if_error_banner lower self (Inl x) = Inr ())
   \<and> (alert_classes lower a = alert_classes lower b
        \<and> lower (alert_text a) = lower (alert_text b)
        \<longrightarrow> is_error_alert lower a = is_error_alert lower b)"
    using iff which never swallowed caseless by blast
  have c1: "check_error_banner self \<and> driver self \<noteq> None \<longrightarrow>
        raise_if_error_banner lower self pg =
          (case page_finding lower pg of
             Clean \<Rightarrow> Inr ()
           | Banner t \<Rightarrow> Inl (Exception (banner_prefix @ t))
           | QueryError e \<Rightarrow> if is_WebDriverException e then Inr () else Inl e)"
    using raise_if_error_banner_finding [of self lower pg] by blast
  have c2: "(\<forall>b \<in> set pre. \<not> isl (is_displayed b)) \<and> is_displayed c = Inl y
        \<and> is_WebDriverException y \<longrightarrow>
        raise_if_error_banner lower self (Inr (pre @ c # post)) = Inr ()"
    using raise_if_error_banner_display_error [of pre c y lower self post] by blast
  have c3: "check_error_banner self \<and> driver self \<noteq> None
        \<and> (\<forall>b \<in> set (pre @ c # post). \<not> isl (is_displayed b))
        \<and> (\<forall>b \<in> set pre. shown b \<longrightarrow>
              \<not> isl (class_attribute b) \<and> \<not> isl (element_text b) \<and> \<not> is_error_alert lower b)
        \<and> shown c
        \<and> (class_attribute c = Inl y \<or> (\<not> isl (class_attribute c) \<and> element_text c = Inl y))
        \<longrightarrow>
        raise_if_error_banner lower self (Inr (pre @ c # post))
          = (if is_WebDriverException y then Inr () else Inl y)"
    using raise_if_error_banner_query_error [of self pre c post lower y] by blast
  have c4: "check_error_banner self \<and> driver self \<noteq> None
        \<and> (\<forall>b \<in> set (pre @ c # post). \<not> isl (is_displayed b))
        \<and> (\<forall>b \<in> set pre. shown b \<longrightarrow>
              \<not> isl (class_attribute b) \<and> \<not> isl (element_text b) \<and> \<not> is_error_alert lower b)
        \<and> shown c \<and> \<not> isl (class_attribute c) \<and> \<not> isl (element_text c)
        \<and> is_error_alert lower c
        \<longrightarrow>
        raise_if_error_banner lower self (Inr (pre @ c # post))
          = Inl (Exception (banner_prefix @ alert_text c))"
    using raise_if_error_banner_first_banner [of self pre c post lower] by blast
  have c5: "raise_if_error_banner lower self (Inr alerts) = Inl z \<longrightarrow>
        ((\<forall>b \<in> set alerts. \<not> isl (is_displayed b))
          \<and> (\<exists>a \<in> set alerts. shown a \<and> \<not> isl (class_attribute a) \<and> \<not> isl (element_text a)
                \<and> is_error_alert lower a \<and> z = Exception (banner_prefix @ alert_text a)))
        \<or> (\<not> is_WebDriverException z
            \<and> (\<exists>a \<in> set alerts. is_displayed a = Inl z \<or> class_attribute a = Inl z
                  \<or> element_text a = Inl z))"
    using raise_if_error_banner_origin [of lower self alerts z] by blast
  have comb: "A \<and> B \<and> C \<and> D \<Longrightarrow> E \<Longrightarrow> F \<Longrightarrow> G \<Longrightarrow> H \<Longrightarrow> I
      \<Longrightarrow> A \<and> B \<and> C \<and> D \<and> E \<and> F \<and> G \<and> H \<and> I" for A B C D E F G H I
    by blast
  show ?thesis by (rule comb [OF old c1 c2 c3 c4 c5])
qed


text \<open>The statement at a hidden error alert followed by a shown alert with an upper-case
  class attribute; at a stale-element error of \<open>find_elements\<close>; at a stale alert element
  and at a shown alert whose text query is stale, each followed by a shown error alert; and
  at a shown error alert followed by the alert whose text query is stale.\<close>

theorem raise_if_error_banner_detects_witness:
  "check_error_banner example_test \<and> driver example_test \<noteq> None
   \<and> observed hidden_error_alert \<and> observed upper_case_class_alert
   \<and> shown upper_case_class_alert \<and> is_error_alert lower_ascii_cyrillic upper_case_class_alert
   \<and> (\<exists>e. raise_if_error_banner lower_ascii_cyrillic example_test
             (Inr [hidden_error_alert, upper_case_class_alert]) = Inl e)
   \<and> is_WebDriverException (StaleElementReferenceException [])
   \<and> raise_if_error_banner lower_ascii_cyrillic example_test
        (Inl (StaleElementReferenceException [])) = Inr ()
   \<and> is_displayed stale_alert = Inl stale \<and> is_WebDriverException stale
   \<and> raise_if_error_banner lower_ascii_cyrillic example_test
        (Inr [hidden_error_alert, stale_alert, upper_case_class_alert]) = Inr ()
   \<and> shown stale_text_alert \<and> element_text stale_text_alert = Inl stale
   \<and> raise_if_error_banner lower_ascii_cyrillic example_test
        (Inr [hidden_error_alert, stale_text_alert, upper_case_class_alert]) = Inr ()
   \<and> raise_if_error_banner lower_ascii_cyrillic example_test
        (Inr [hidden_error_alert, upper_case_class_alert, stale_text_alert])
        = Inl (Exception (banner_prefix @ ascii ''saved''))"
proof -
  note inst = raise_if_error_banner_detects
    [where self = example_test and lower = lower_ascii_cyrillic
       and alerts = "[hidden_error_alert, upper_case_class_alert]"
       and x = "StaleElementReferenceException []"
       and pg = "Inl (StaleElementReferenceException [])"
       and a = upper_case_class_alert and b = upper_case_class_alert
       and pre = "[hidden_error_alert]" and c = stale_alert and post = "[upper_case_class_alert]"
       and y = stale]
  note inst_text = raise_if_error_banner_detects
    [where self = example_test and lower = lower_ascii_cyrillic
       and pre = "[hidden_error_alert]" and c = stale_text_alert
       and post = "[upper_case_class_alert]" and y = stale]
  note inst_banner = raise_if_error_banner_detects
    [where self = example_test and lower = lower_ascii_cyrillic
       and pre = "[hidden_error_alert]" and c = upper_case_class_alert
       and post = "[stale_text_alert]"]
  have hyp: "check_error_banner example_test \<and> driver example_test \<noteq> None \<and>
      (\<forall>a \<in> set [hidden_error_alert, upper_case_class_alert]. observed a)"
    using example_alerts_observed example_test_enabled by simp
  have ex: "\<exists>a \<in> set [hidden_error_alert, upper_case_class_alert].
      shown a \<and> is_error_alert lower_ascii_cyrillic a"
    using example_alerts_observed upper_case_class_is_error by simp
  from inst [THEN conjunct1, THEN mp, OF hyp] ex
  have r1: "\<exists>e. raise_if_error_banner lower_ascii_cyrillic example_test
             (Inr [hidden_error_alert, upper_case_class_alert]) = Inl e"
    by blast
  from inst [THEN conjunct2, THEN conjunct2, THEN conjunct1]
  have r2: "raise_if_error_banner lower_ascii_cyrillic example_test
        (Inl (StaleElementReferenceException [])) = Inr ()"
    by simp
  have h3: "(\<forall>b \<in> set [hidden_error_alert]. \<not> isl (is_displayed b))
      \<and> is_displayed stale_alert = Inl stale \<and> is_WebDriverException stale"
    using example_alerts_displayed stale_alert_queries stale_is_driver_error by simp
  from inst [THEN conjunct2, THEN conjunct2, THEN conjunct2, THEN conjunct2, THEN conjunct2,
      THEN conjunct1, THEN mp, OF h3]
  have "raise_if_error_banner lower_ascii_cyrillic example_test
        (Inr ([hidden_error_alert] @ stale_alert # [upper_case_class_alert])) = Inr ()" .
  then have r3: "raise_if_error_banner lower_ascii_cyrillic example_test
        (Inr [hidden_error_alert, stale_alert, upper_case_class_alert]) = Inr ()"
    by simp
  have h4: "check_error_banner example_test \<and> driver example_test \<noteq> None
      \<and> (\<forall>b \<in> set ([hidden_error_alert] @ stale_text_alert # [upper_case_class_alert]).
            \<not> isl (is_displayed b))
      \<and> (\<forall>b \<in> set [hidden_error_alert]. shown b \<longrightarrow>
            \<not> isl (class_attribute b) \<and> \<not> isl (element_text b)
            \<and> \<not> is_error_alert lower_ascii_cyrillic b)
      \<and> shown stale_text_alert
      \<and> (class_attribute stale_text_alert = Inl stale
          \<or> (\<not> isl (class_attribute stale_text_alert) \<and> element_text stale_text_alert = Inl stale))"
    using example_alerts_displayed stale_alert_queries example_test_enabled by simp
  from inst_text [THEN conjunct2, THEN conjunct2, THEN conjunct2, THEN conjunct2,
      THEN conjunct2, THEN conjunct2, THEN conjunct1, THEN mp, OF h4]
  have "raise_if_error_banner lower_ascii_cyrillic example_test
        (Inr ([hidden_error_alert] @ stale_text_alert # [upper_case_class_alert]))
         = (if is_WebDriverException stale then Inr () else Inl stale)" .
  then have r4: "raise_if_error_banner lower_ascii_cyrillic example_test
        (Inr [hidden_error_alert, stale_text_alert, upper_case_class_alert]) = Inr ()"
    using stale_is_driver_error by simp
  have h5: "check_error_banner example_test \<and> driver example_test \<noteq> None
      \<and> (\<forall>b \<in> set ([hidden_error_alert] @ upper_case_class_alert # [stale_text_alert]).
            \<not> isl (is_displayed b))
      \<and> (\<forall>b \<in> set [hidden_error_alert]. shown b \<longrightarrow>
            \<not> isl (class_attribute b) \<and> \<not> isl (element_text b)
            \<and> \<not> is_error_alert lower_ascii_cyrillic b)
      \<and> shown upper_case_class_alert \<and> \<not> isl (class_attribute upper_case_class_alert)
      \<and> \<not> isl (element_text upper_case_class_alert)
      \<and> is_error_alert lower_ascii_cyrillic upper_case_class_alert"
    using example_alerts_displayed stale_alert_queries example_test_enabled
      example_alerts_observed upper_case_class_is_error by simp
  from inst_banner [THEN conjunct2, THEN conjunct2, THEN conjunct2, THEN conjunct2,
      THEN conjunct2, THEN conjunct2, THEN conjunct2, THEN conjunct1, THEN mp, OF h5]
  have "raise_if_error_banner lower_ascii_cyrillic example_test
        (Inr ([hidden_error_alert] @ upper_case_class_alert # [stale_text_alert]))
         = Inl (Exception (banner_prefix @ alert_text upper_case_class_alert))" .
  then have r5: "raise_if_error_banner lower_ascii_cyrillic example_test
        (Inr [hidden_error_alert, upper_case_class_alert, stale_text_alert])
        = Inl (Exception (banner_prefix @ ascii ''saved''))"
    by (simp add: upper_case_class_text)
  from r1 r2 r3 r4 r5 show ?thesis
    using example_alerts_observed example_test_enabled upper_case_class_is_error
      stale_alert_queries stale_is_driver_error by simp
qed

section \<open>wait\_element on timeout\<close>








section \<open>The retry loops\<close>

lemma attempt_state_shift:
  "attempt_state ops action drv (Suc k) w =
     attempt_state ops action drv k (refresh_and_wait ops drv (snd (action w)))"
  by (induction k) simp_all

lemma retry_attempts_success:
  assumes "i + j \<le> max_retries"
    and "\<forall>k<j. isl (fst (action (attempt_state ops action drv k w)))"
    and "\<not> isl (fst (action (attempt_state ops action drv j w)))"
  shows "retry_attempts ops cfg n key action drv descr max_retries [i..<max_retries + 1] r w =
     (Some True,
      add_step r key (ascii ''1'')
        (time_time ops (snd (action (attempt_state ops action drv j w)))
           - time_time ops (attempt_state ops action drv j w)),
      snd (action (attempt_state ops action drv j w)))"
  using assms
proof (induction j arbitrary: i w)
  case 0
  then have l: "[i..<max_retries + 1] = i # [Suc i..<max_retries + 1]"
    by (simp add: upt_conv_Cons)
  from 0 obtain w1 where "action w = (Inr (), w1)"
    by (cases "action w"; cases "fst (action w)") auto
  then show ?case unfolding l by (simp add: Let_def del: upt_Suc)
next
  case (Suc j)
  then have l: "[i..<max_retries + 1] = i # [Suc i..<max_retries + 1]" and lt: "i < max_retries"
    by (simp_all add: upt_conv_Cons)
  from Suc.prems(2) have "isl (fst (action (attempt_state ops action drv 0 w)))" by blast
  then obtain e w1 where a: "action w = (Inl e, w1)"
    by (cases "action w"; cases "fst (action w)") auto
  let ?w' = "refresh_and_wait ops drv (snd (action w))"
  have "retry_attempts ops cfg n key action drv descr max_retries [Suc i..<max_retries + 1] r ?w' =
     (Some True,
      add_step r key (ascii ''1'')
        (time_time ops (snd (action (attempt_state ops action drv j ?w')))
           - time_time ops (attempt_state ops action drv j ?w')),
      snd (action (attempt_state ops action drv j ?w')))"
  proof (rule Suc.IH)
    show "Suc i + j \<le> max_retries" using Suc.prems(1) by simp
    show "\<forall>k<j. isl (fst (action (attempt_state ops action drv k ?w')))"
      using Suc.prems(2) by (metis Suc_less_eq attempt_state_shift)
    show "\<not> isl (fst (action (attempt_state ops action drv j ?w')))"
      using Suc.prems(3) by (simp add: attempt_state_shift del: attempt_state.simps)
  qed
  then show ?case
    using a lt unfolding l by (simp add: Let_def attempt_state_shift del: attempt_state.simps upt_Suc)
qed

lemma retry_attempts_failure:
  assumes "i + j = max_retries"
    and "\<forall>k\<le>j. isl (fst (action (attempt_state ops action drv k w)))"
  shows "retry_attempts ops cfg n key action drv descr max_retries [i..<max_retries + 1] r w =
     (case step_failed ops cfg n key descr
             (time_time ops (attempt_state ops action drv j w))
             (projl (fst (action (attempt_state ops action drv j w)))) r
             (snd (action (attempt_state ops action drv j w))) of
        (r', w') \<Rightarrow> (Some False, r', w'))"
  using assms
proof (induction j arbitrary: i w)
  case 0
  then have l: "[i..<max_retries + 1] = [i]" by simp
  from 0 obtain e w1 where "action w = (Inl e, w1)"
    by (cases "action w"; cases "fst (action w)") auto
  with 0 show ?case unfolding l by (simp add: Let_def del: upt_Suc)
next
  case (Suc j)
  then have l: "[i..<max_retries + 1] = i # [Suc i..<max_retries + 1]" and lt: "i < max_retries"
    by (simp_all add: upt_conv_Cons)
  from Suc.prems(2) have "isl (fst (action (attempt_state ops action drv 0 w)))" by blast
  then obtain e w1 where a: "action w = (Inl e, w1)"
    by (cases "action w"; cases "fst (action w)") auto
  let ?w' = "refresh_and_wait ops drv (snd (action w))"
  have "retry_attempts ops cfg n key action drv descr max_retries [Suc i..<max_retries + 1] r ?w' =
     (case step_failed ops cfg n key descr
             (time_time ops (attempt_state ops action drv j ?w'))
             (projl (fst (action (attempt_state ops action drv j ?w')))) r
             (snd (action (attempt_state ops action drv j ?w'))) of
        (r', w') \<Rightarrow> (Some False, r', w'))"
  proof (rule Suc.IH)
    show "Suc i + j = max_retries" using Suc.prems(1) by simp
    show "\<forall>k\<le>j. isl (fst (action (attempt_state ops action drv k ?w')))"
      using Suc.prems(2) by (metis Suc_le_mono attempt_state_shift)
  qed
  then show ?case
    using a lt unfolding l by (simp add: Let_def attempt_state_shift del: attempt_state.simps upt_Suc)
qed


lemma first_success_or_all_fail:
  fixes P :: "nat \<Rightarrow> bool"
  shows "(\<forall>k\<le>m. P k) \<or> (\<exists>j\<le>m. (\<forall>k<j. P k) \<and> \<not> P j)"
proof (cases "\<forall>k\<le>m. P k")
  case True
  then show ?thesis by blast
next
  case False
  then have "\<exists>n. \<not> P n \<and> n \<le> m" by blast
  then obtain j where j: "\<not> P j \<and> j \<le> m" "\<forall>i<j. \<not> (\<not> P i \<and> i \<le> m)"
    using exists_least_iff [of "\<lambda>n. \<not> P n \<and> n \<le> m"] by blast
  then have "\<forall>k<j. P k" by auto
  with j show ?thesis by blast
qed

lemma execute_step_with_retry_success:
  assumes "j \<le> max_retries"
    and "\<forall>k<j. isl (fst (action (attempt_state ops action drv k w)))"
    and "\<not> isl (fst (action (attempt_state ops action drv j w)))"
  shows "execute_step_with_retry ops cfg n key action drv descr max_retries r w =
     (Some True,
      add_step r key (ascii ''1'')
        (time_time ops (snd (action (attempt_state ops action drv j w)))
           - time_time ops (attempt_state ops action drv j w)),
      snd (action (attempt_state ops action drv j w)))"
  unfolding execute_step_with_retry_def
  using retry_attempts_success [of 0 j max_retries action ops drv w] assms by simp

lemma execute_step_with_retry_failure:
  assumes "\<forall>k\<le>max_retries. isl (fst (action (attempt_state ops action drv k w)))"
  shows "execute_step_with_retry ops cfg n key action drv descr max_retries r w =
     (case step_failed ops cfg n key descr
             (time_time ops (attempt_state ops action drv max_retries w))
             (projl (fst (action (attempt_state ops action drv max_retries w)))) r
             (snd (action (attempt_state ops action drv max_retries w))) of
        (r', w') \<Rightarrow> (Some False, r', w'))"
  unfolding execute_step_with_retry_def
  using retry_attempts_failure [of 0 max_retries max_retries action ops drv w] assms by simp

lemma traced_refresh_and_wait:
  assumes "traced ops f tr"
  shows "tr (refresh_and_wait ops (Some d) w) = tr w @ [Recovery]"
proof -
  from assms have r: "tr (snd (driver_refresh ops w)) = tr w @ [Recovery]"
    and wt: "\<And>w. tr (snd (wait_ready_state ops w)) = tr w"
    and sl: "\<And>s w. tr (time_sleep ops s w) = tr w"
    by (simp_all add: traced_def)
  obtain x w1 where a: "driver_refresh ops w = (x, w1)" by (cases "driver_refresh ops w")
  obtain y w2 where b: "wait_ready_state ops w1 = (y, w2)" by (cases "wait_ready_state ops w1")
  from r a have r': "tr w1 = tr w @ [Recovery]" by simp
  from wt [of w1] b have w': "tr w2 = tr w1" by simp
  show ?thesis
    using a b r' w' sl by (cases x; cases y) (simp_all add: refresh_and_wait_def)
qed

lemma traced_capture_screenshot:
  assumes "traced ops f tr"
  shows "tr (snd (snd (capture_screenshot ops r w))) = tr w"
proof -
  from assms have g: "tr (snd (get_screenshot_b64 ops w)) = tr w"
    and sv: "\<And>w. tr (save_screenshot_file ops w) = tr w"
    by (simp_all add: traced_def)
  obtain x w1 where a: "get_screenshot_b64 ops w = (x, w1)" by (cases "get_screenshot_b64 ops w")
  with g have "tr w1 = tr w" by simp
  with a sv show ?thesis by (cases x) (simp_all add: capture_screenshot_def)
qed

lemma traced_step_failed:
  assumes "traced ops f tr"
  shows "tr (snd (step_failed ops cfg n key descr t0 e r w)) = tr w"
proof -
  from assms have tg: "\<And>a w. tr (send_telegram_alert ops a w) = tr w"
    and pr: "\<And>j w. tr (print_json ops j w) = tr w"
    by (simp_all add: traced_def)
  obtain ss r1 w1 where c: "capture_screenshot ops r w = (ss, r1, w1)"
    by (cases "capture_screenshot ops r w") auto
  with traced_capture_screenshot [OF assms, of r w] have "tr w1 = tr w" by simp
  with c tg pr show ?thesis by (simp add: step_failed_def Let_def)
qed

lemma traced_attempt_state:
  assumes "traced ops action tr"
    and "\<forall>k<j. isl (fst (action (attempt_state ops action (Some d) k w)))"
  shows "tr (attempt_state ops action (Some d) j w) = tr w @ failed_rounds j"
  using assms(2)
proof (induction j)
  case 0
  then show ?case by (simp add: failed_rounds_def)
next
  case (Suc j)
  then have ih: "tr (attempt_state ops action (Some d) j w) = tr w @ failed_rounds j"
    and f: "isl (fst (action (attempt_state ops action (Some d) j w)))"
    by simp_all
  from assms(1) have a: "\<And>w. tr (snd (action w)) = tr w @ [Attempt (\<not> isl (fst (action w)))]"
    by (simp add: traced_def)
  have "replicate (Suc j) [Attempt False, Recovery]
          = replicate j [Attempt False, Recovery] @ [[Attempt False, Recovery]]"
    by (simp add: replicate_append_same)
  then have "failed_rounds (Suc j) = failed_rounds j @ [Attempt False, Recovery]"
    unfolding failed_rounds_def by (simp only: concat_append concat.simps append_Nil2)
  then show ?case
    using ih f a [of "attempt_state ops action (Some d) j w"]
    by (simp add: traced_refresh_and_wait [OF assms(1)])
qed

lemma execute_step_with_retry_trace:
  assumes t: "traced ops action tr"
  shows "\<exists>j b. j \<le> max_retries
     \<and> tr (snd (snd (execute_step_with_retry ops cfg n key action (Some d) descr max_retries r w)))
         = tr w @ failed_rounds j @ [Attempt b]
     \<and> fst (execute_step_with_retry ops cfg n key action (Some d) descr max_retries r w) = Some b
     \<and> (\<not> b \<longrightarrow> j = max_retries)"
proof -
  let ?P = "\<lambda>k. isl (fst (action (attempt_state ops action (Some d) k w)))"
  from t have a: "\<And>w. tr (snd (action w)) = tr w @ [Attempt (\<not> isl (fst (action w)))]"
    by (simp add: traced_def)
  from first_success_or_all_fail [of max_retries ?P]
  consider "\<forall>k\<le>max_retries. ?P k" | j where "j \<le> max_retries" "\<forall>k<j. ?P k" "\<not> ?P j"
    by blast
  then show ?thesis
  proof cases
    case 1
    then have st: "tr (attempt_state ops action (Some d) max_retries w) = tr w @ failed_rounds max_retries"
      using traced_attempt_state [OF t] by simp
    obtain r' w' where sf: "step_failed ops cfg n key descr
             (time_time ops (attempt_state ops action (Some d) max_retries w))
             (projl (fst (action (attempt_state ops action (Some d) max_retries w)))) r
             (snd (action (attempt_state ops action (Some d) max_retries w))) = (r', w')"
      by (cases "step_failed ops cfg n key descr
             (time_time ops (attempt_state ops action (Some d) max_retries w))
             (projl (fst (action (attempt_state ops action (Some d) max_retries w)))) r
             (snd (action (attempt_state ops action (Some d) max_retries w)))") auto
    from traced_step_failed [OF t, of cfg n key descr _ _ r] sf
    have "tr w' = tr (snd (action (attempt_state ops action (Some d) max_retries w)))"
      by (metis snd_conv)
    also have "\<dots> = tr w @ failed_rounds max_retries @ [Attempt False]"
      using a [of "attempt_state ops action (Some d) max_retries w"] st 1 by simp
    finally have "tr w' = tr w @ failed_rounds max_retries @ [Attempt False]" .
    then show ?thesis
      using execute_step_with_retry_failure [OF 1, of cfg n key descr r] sf
      by (intro exI [of _ max_retries] exI [of _ False]) simp
  next
    case 2
    then have st: "tr (attempt_state ops action (Some d) j w) = tr w @ failed_rounds j"
      using traced_attempt_state [OF t] by simp
    have "tr (snd (action (attempt_state ops action (Some d) j w)))
            = tr w @ failed_rounds j @ [Attempt True]"
      using a [of "attempt_state ops action (Some d) j w"] st 2 by simp
    then show ?thesis
      using execute_step_with_retry_success [OF 2, of cfg n key descr r] 2(1)
      by (intro exI [of _ j] exI [of _ True]) simp
  qed
qed


lemma wrapper_state_shift:
  "wrapper_state ops delay func (Suc k) w =
     wrapper_state ops delay func k (time_sleep ops delay (snd (driver_refresh ops (snd (func w)))))"
  by (induction k) simp_all

lemma retry_wrapper_success:
  assumes "i + j < nat retries"
    and "\<forall>k<j. isl (fst (func (wrapper_state ops delay func k w)))"
    and "\<not> isl (fst (func (wrapper_state ops delay func j w)))"
  shows "retry_wrapper ops retries delay func [i..<nat retries] w =
     (Inr (Some (projr (fst (func (wrapper_state ops delay func j w))))),
      snd (func (wrapper_state ops delay func j w)))"
  using assms
proof (induction j arbitrary: i w)
  case 0
  then have l: "[i..<nat retries] = i # [Suc i..<nat retries]"
    by (simp add: upt_conv_Cons)
  from 0 obtain v w1 where "func w = (Inr v, w1)"
    by (cases "func w"; cases "fst (func w)") auto
  then show ?case unfolding l by simp
next
  case (Suc j)
  then have l: "[i..<nat retries] = i # [Suc i..<nat retries]" and ne: "int i \<noteq> retries - 1"
    by (simp_all add: upt_conv_Cons)
  from Suc.prems(2) have "isl (fst (func (wrapper_state ops delay func 0 w)))" by blast
  then obtain e w1 where a: "func w = (Inl e, w1)"
    by (cases "func w"; cases "fst (func w)") auto
  let ?w' = "time_sleep ops delay (snd (driver_refresh ops (snd (func w))))"
  have "retry_wrapper ops retries delay func [Suc i..<nat retries] ?w' =
     (Inr (Some (projr (fst (func (wrapper_state ops delay func j ?w'))))),
      snd (func (wrapper_state ops delay func j ?w')))"
  proof (rule Suc.IH)
    show "Suc i + j < nat retries" using Suc.prems(1) by simp
    show "\<forall>k<j. isl (fst (func (wrapper_state ops delay func k ?w')))"
      using Suc.prems(2) by (metis Suc_less_eq wrapper_state_shift)
    show "\<not> isl (fst (func (wrapper_state ops delay func j ?w')))"
      using Suc.prems(3) by (simp add: wrapper_state_shift del: wrapper_state.simps)
  qed
  then show ?case
    using a ne unfolding l by (simp add: wrapper_state_shift del: wrapper_state.simps)
qed

lemma retry_wrapper_failure:
  assumes "i + j + 1 = nat retries"
    and "\<forall>k\<le>j. isl (fst (func (wrapper_state ops delay func k w)))"
  shows "retry_wrapper ops retries delay func [i..<nat retries] w =
     (Inl (projl (fst (func (wrapper_state ops delay func j w)))),
      snd (func (wrapper_state ops delay func j w)))"
  using assms
proof (induction j arbitrary: i w)
  case 0
  then have l: "[i..<nat retries] = [i]" and eq: "int i = retries - 1"
    by (simp_all add: upt_conv_Cons)
  from 0 obtain e w1 where "func w = (Inl e, w1)"
    by (cases "func w"; cases "fst (func w)") auto
  with eq show ?case unfolding l by simp
next
  case (Suc j)
  then have l: "[i..<nat retries] = i # [Suc i..<nat retries]" and ne: "int i \<noteq> retries - 1"
    by (simp_all add: upt_conv_Cons)
  from Suc.prems(2) have "isl (fst (func (wrapper_state ops delay func 0 w)))" by blast
  then obtain e w1 where a: "func w = (Inl e, w1)"
    by (cases "func w"; cases "fst (func w)") auto
  let ?w' = "time_sleep ops delay (snd (driver_refresh ops (snd (func w))))"
  have "retry_wrapper ops retries delay func [Suc i..<nat retries] ?w' =
     (Inl (projl (fst (func (wrapper_state ops delay func j ?w')))),
      snd (func (wrapper_state ops delay func j ?w')))"
  proof (rule Suc.IH)
    show "Suc i + j + 1 = nat retries" using Suc.prems(1) by simp
    show "\<forall>k\<le>j. isl (fst (func (wrapper_state ops delay func k ?w')))"
      using Suc.prems(2) by (metis Suc_le_mono wrapper_state_shift)
  qed
  then show ?case
    using a ne unfolding l by (simp add: wrapper_state_shift del: wrapper_state.simps)
qed

lemma retry_on_exception_success:
  assumes "int j < retries"
    and "\<forall>k<j. isl (fst (func (wrapper_state ops delay func k w)))"
    and "\<not> isl (fst (func (wrapper_state ops delay func j w)))"
  shows "retry_on_exception ops retries delay func w =
     (Inr (Some (projr (fst (func (wrapper_state ops delay func j w))))),
      snd (func (wrapper_state ops delay func j w)))"
  unfolding retry_on_exception_def
  using retry_wrapper_success [of 0 j retries func ops delay w] assms by simp

lemma retry_on_exception_failure:
  assumes "0 < retries"
    and "\<forall>k<nat retries. isl (fst (func (wrapper_state ops delay func k w)))"
  shows "retry_on_exception ops retries delay func w =
     (Inl (projl (fst (func (wrapper_state ops delay func (nat retries - 1) w)))),
      snd (func (wrapper_state ops delay func (nat retries - 1) w)))"
proof -
  from assms(1) have "0 + (nat retries - 1) + 1 = nat retries" by simp
  moreover from assms have "\<forall>k\<le>nat retries - 1. isl (fst (func (wrapper_state ops delay func k w)))"
    by auto
  ultimately show ?thesis
    unfolding retry_on_exception_def
    using retry_wrapper_failure [of 0 "nat retries - 1" retries func ops delay w] by simp
qed

lemma retry_on_exception_no_attempts:
  "retries \<le> 0 \<Longrightarrow> retry_on_exception ops retries delay func w = (Inr None, w)"
  by (simp add: retry_on_exception_def)

lemma traced_wrapper_state:
  assumes "traced ops func tr"
    and "\<forall>k<j. isl (fst (func (wrapper_state ops delay func k w)))"
  shows "tr (wrapper_state ops delay func j w) = tr w @ failed_rounds j"
  using assms(2)
proof (induction j)
  case 0
  then show ?case by (simp add: failed_rounds_def)
next
  case (Suc j)
  then have ih: "tr (wrapper_state ops delay func j w) = tr w @ failed_rounds j"
    and f: "isl (fst (func (wrapper_state ops delay func j w)))"
    by simp_all
  from assms(1) have a: "\<And>w. tr (snd (func w)) = tr w @ [Attempt (\<not> isl (fst (func w)))]"
    and r: "\<And>w. tr (snd (driver_refresh ops w)) = tr w @ [Recovery]"
    and sl: "\<And>s w. tr (time_sleep ops s w) = tr w"
    by (simp_all add: traced_def)
  have "replicate (Suc j) [Attempt False, Recovery]
          = replicate j [Attempt False, Recovery] @ [[Attempt False, Recovery]]"
    by (simp add: replicate_append_same)
  then have "failed_rounds (Suc j) = failed_rounds j @ [Attempt False, Recovery]"
    unfolding failed_rounds_def by (simp only: concat_append concat.simps append_Nil2)
  then show ?case
    using ih f a [of "wrapper_state ops delay func j w"] by (simp add: r sl)
qed

lemma retry_on_exception_trace:
  assumes t: "traced ops func tr" and pos: "0 < retries"
  shows "\<exists>j b. int j < retries
     \<and> tr (snd (retry_on_exception ops retries delay func w)) = tr w @ failed_rounds j @ [Attempt b]
     \<and> (b \<longleftrightarrow> \<not> isl (fst (retry_on_exception ops retries delay func w)))
     \<and> (\<not> b \<longrightarrow> int j = retries - 1)"
proof -
  let ?P = "\<lambda>k. isl (fst (func (wrapper_state ops delay func k w)))"
  let ?m = "nat retries - 1"
  from t have a: "\<And>w. tr (snd (func w)) = tr w @ [Attempt (\<not> isl (fst (func w)))]"
    by (simp add: traced_def)
  from first_success_or_all_fail [of ?m ?P]
  consider "\<forall>k\<le>?m. ?P k" | j where "j \<le> ?m" "\<forall>k<j. ?P k" "\<not> ?P j"
    by blast
  then show ?thesis
  proof cases
    case 1
    then have all: "\<forall>k<nat retries. ?P k" using pos by auto
    from 1 have st: "tr (wrapper_state ops delay func ?m w) = tr w @ failed_rounds ?m"
      using traced_wrapper_state [OF t] by simp
    have "tr (snd (func (wrapper_state ops delay func ?m w)))
            = tr w @ failed_rounds ?m @ [Attempt False]"
      using a [of "wrapper_state ops delay func ?m w"] st 1 by simp
    then show ?thesis
      using retry_on_exception_failure [OF pos all] pos
      by (intro exI [of _ ?m] exI [of _ False]) auto
  next
    case 2
    then have lt: "int j < retries" using pos by linarith
    from 2 have st: "tr (wrapper_state ops delay func j w) = tr w @ failed_rounds j"
      using traced_wrapper_state [OF t] by simp
    have "tr (snd (func (wrapper_state ops delay func j w)))
            = tr w @ failed_rounds j @ [Attempt True]"
      using a [of "wrapper_state ops delay func j w"] st 2 by simp
    then show ?thesis
      using retry_on_exception_success [OF lt 2(2,3)] lt
      by (intro exI [of _ j] exI [of _ True]) simp
  qed
qed

lemma traced_sim: "traced sim_ops sim_call sim_events"
  by (simp add: traced_def sim_ops_def sim_call_def split: list.splits)

section \<open>Which failure a retried step reports\<close>

lemma py_round2_int [simp]: "py_round2 (of_int n) = of_int n"
  by (simp add: py_round2_def Let_def)

lemma py_round2_1 [simp]: "py_round2 1 = 1"
  using py_round2_int [of 1] by simp

lemma py_round2_numeral [simp]: "py_round2 (numeral n) = numeral n"
  using py_round2_int [of "numeral n"] by simp

lemma upt_small: "[0..<3] = [0, 1, 2]" "[0..<2] = [0, 1]"
  by (simp_all add: upt_rec)

lemma capture_screenshot_fields:
  "steps (fst (snd (capture_screenshot ops r w))) = steps r"
  "success (fst (snd (capture_screenshot ops r w))) = success r"
  "start_time (fst (snd (capture_screenshot ops r w))) = start_time r"
  by (simp_all add: capture_screenshot_def set_screenshot_b64_def split: prod.splits sum.splits)

lemma step_failed_result:
  "fst (step_failed ops cfg n key descr t0 e r w) =
     finalize
       (add_step (fst (snd (capture_screenshot ops r w))) key (ascii ''0'')
          (time_time ops (snd (snd (capture_screenshot ops r w))) - t0))
       (time_time ops
          (send_telegram_alert ops
             \<lparr>tg_token = telegram_token cfg, tg_chat_id = telegram_chat_id cfg,
              tg_text = step_error_text n (str_exn e),
              tg_screenshot_b64 = fst (capture_screenshot ops r w),
              tg_step_number = Some (str_nat n), tg_step_description = descr\<rparr>
             (snd (snd (capture_screenshot ops r w)))))
       False (failed_at_step_text n) (Some (step_error_text n (str_exn e)))"
  by (simp add: step_failed_def Let_def split: prod.splits)

lemma step_failed_printed:
  "\<exists>w'. snd (step_failed ops cfg n key descr t0 e r w) =
     print_json ops (to_dict_lks (fst (step_failed ops cfg n key descr t0 e r w))) w'"
  by (auto simp: step_failed_def Let_def split: prod.splits)

lemma step_failed_fields:
  "error (fst (step_failed ops cfg n key descr t0 e r w)) = Some (step_error_text n (str_exn e))"
  "\<not> success (fst (step_failed ops cfg n key descr t0 e r w))"
  "steps (fst (step_failed ops cfg n key descr t0 e r w)) =
     AList.update key
       \<lparr>step_status = ascii ''0'',
        duration_seconds =
          py_round2 (time_time ops (snd (snd (capture_screenshot ops r w))) - t0)\<rparr> (steps r)"
  by (simp_all add: step_failed_result finalize_def add_step_def capture_screenshot_fields)

lemma to_dict_lks_error:
  "error r = Some e \<Longrightarrow> map_of (to_dict_lks r) (ascii ''error'') = Some (JStr e)"
  by (simp add: to_dict_lks_def Let_def update_conv')

lemma to_dict_lks_no_error:
  "error r = None \<Longrightarrow> map_of (to_dict_lks r) (ascii ''error'') = None"
  by (simp add: to_dict_lks_def Let_def)

lemma step_error_text_inject:
  "step_error_text n a = step_error_text n b \<longleftrightarrow> a = b"
  by (simp add: step_error_text_def)

lemma str_nat_digit: "n < 10 \<Longrightarrow> str_nat n = [48 + n]"
  by (simp add: str_nat.simps)

text \<open>
  C5. When every attempt of \<open>execute_step_with_retry\<close> fails, it returns \<open>False\<close> and the error
  stored in the result and written to the report under \<open>"error"\<close> is the text "step N error: "
  (in Russian, spelled out below by its code points) followed by \<open>str(e)\<close> for the exception
  \<open>e\<close> of the last attempt (the attempt numbered \<open>max_retries\<close>); the step is recorded with
  status \<open>"0"\<close> and that report is printed. The recorded text determines \<open>str(e)\<close>: two
  exception texts give the same report only when they are equal, so the report names the last
  attempt's error and no earlier one. \<open>str\<close> of an exception is its message, and \<open>str\<close> of a
  step number below ten is its digit. When attempt \<open>j\<close> is the first to return, the function
  returns \<open>True\<close> in the state that attempt left: nothing is called after it. The wrapper of
  \<open>retry_on_exception\<close> re-raises the exception of its last attempt, and returns the value of
  the first attempt that returns, in the state that attempt left.
\<close>

theorem retry_surfaces_last_failure:
  "((\<forall>k\<le>max_retries. isl (fst (action (attempt_state ops action drv k w)))) \<longrightarrow>
      (let e = projl (fst (action (attempt_state ops action drv max_retries w)));
           out = execute_step_with_retry ops cfg n key action drv descr max_retries r w;
           r' = fst (snd out)
       in fst out = Some False
          \<and> error r' = Some (step_error_text n (str_exn e))
          \<and> map_of (to_dict_lks r') (ascii ''error'') = Some (JStr (step_error_text n (str_exn e)))
          \<and> \<not> success r'
          \<and> (\<exists>d. map_of (steps r') key = Some \<lparr>step_status = ascii ''0'', duration_seconds = d\<rparr>)
          \<and> (\<exists>w'. snd (snd out) = print_json ops (to_dict_lks r') w')
          \<and> error r' = Some ([1064, 1072, 1075, 32] @ str_nat n
                               @ [32, 1086, 1096, 1080, 1073, 1082, 1072, 58, 32] @ str_exn e)
          \<and> map_of (to_dict_lks r') (ascii ''error'')
              = Some (JStr ([1064, 1072, 1075, 32] @ str_nat n
                               @ [32, 1086, 1096, 1080, 1073, 1082, 1072, 58, 32] @ str_exn e))
          \<and> (error r' = Some (step_error_text n t) \<longrightarrow> t = str_exn e)))
   \<and> (j \<le> max_retries \<and> (\<forall>k<j. isl (fst (action (attempt_state ops action drv k w))))
        \<and> \<not> isl (fst (action (attempt_state ops action drv j w))) \<longrightarrow>
      (let out = execute_step_with_retry ops cfg n key action drv descr max_retries r w
       in fst out = Some True
          \<and> snd (snd out) = snd (action (attempt_state ops action drv j w))))
   \<and> (0 < retries \<and> (\<forall>k<nat retries. isl (fst (func (wrapper_state ops delay func k v)))) \<longrightarrow>
        retry_on_exception ops retries delay func v =
          (Inl (projl (fst (func (wrapper_state ops delay func (nat retries - 1) v)))),
           snd (func (wrapper_state ops delay func (nat retries - 1) v))))
   \<and> (int i < retries \<and> (\<forall>k<i. isl (fst (func (wrapper_state ops delay func k v))))
        \<and> \<not> isl (fst (func (wrapper_state ops delay func i v))) \<longrightarrow>
        retry_on_exception ops retries delay func v =
          (Inr (Some (projr (fst (func (wrapper_state ops delay func i v))))),
           snd (func (wrapper_state ops delay func i v))))
   \<and> (step_error_text n a = step_error_text n b \<longleftrightarrow> a = b)
   \<and> str_exn (TimeoutException txt) = txt
   \<and> str_exn (StaleElementReferenceException txt) = txt
   \<and> str_exn (WebDriverException txt) = txt
   \<and> str_exn (Exception txt) = txt
   \<and> (n < 10 \<longrightarrow> str_nat n = [48 + n])"
proof -
  have a: "let e = projl (fst (action (attempt_state ops action drv max_retries w)));
           out = execute_step_with_retry ops cfg n key action drv descr max_retries r w;
           r' = fst (snd out)
       in fst out = Some False
          \<and> error r' = Some (step_error_text n (str_exn e))
          \<and> map_of (to_dict_lks r') (ascii ''error'') = Some (JStr (step_error_text n (str_exn e)))
          \<and> \<not> success r'
          \<and> (\<exists>d. map_of (steps r') key = Some \<lparr>step_status = ascii ''0'', duration_seconds = d\<rparr>)
          \<and> (\<exists>w'. snd (snd out) = print_json ops (to_dict_lks r') w')
          \<and> error r' = Some ([1064, 1072, 1075, 32] @ str_nat n
                               @ [32, 1086, 1096, 1080, 1073, 1082, 1072, 58, 32] @ str_exn e)
          \<and> map_of (to_dict_lks r') (ascii ''error'')
              = Some (JStr ([1064, 1072, 1075, 32] @ str_nat n
                               @ [32, 1086, 1096, 1080, 1073, 1082, 1072, 58, 32] @ str_exn e))
          \<and> (error r' = Some (step_error_text n t) \<longrightarrow> t = str_exn e)"
    if h: "\<forall>k\<le>max_retries. isl (fst (action (attempt_state ops action drv k w)))"
    using step_failed_printed
    by (simp add: execute_step_with_retry_failure [OF h] Let_def split_beta step_failed_fields
          to_dict_lks_error update_conv' step_error_text_inject)
       (simp add: step_error_text_def)
  have b: "let out = execute_step_with_retry ops cfg n key action drv descr max_retries r w
       in fst out = Some True
          \<and> snd (snd out) = snd (action (attempt_state ops action drv j w))"
    if "j \<le> max_retries" "\<forall>k<j. isl (fst (action (attempt_state ops action drv k w)))"
       "\<not> isl (fst (action (attempt_state ops action drv j w)))"
    by (simp add: execute_step_with_retry_success [OF that])
  have c: "(step_error_text n a = step_error_text n b \<longleftrightarrow> a = b)
   \<and> str_exn (TimeoutException txt) = txt
   \<and> str_exn (StaleElementReferenceException txt) = txt
   \<and> str_exn (WebDriverException txt) = txt
   \<and> str_exn (Exception txt) = txt
   \<and> (n < 10 \<longrightarrow> str_nat n = [48 + n])"
    by (simp add: step_error_text_inject str_nat_digit)
  show ?thesis
    using a b c retry_on_exception_failure [of retries func ops delay v]
      retry_on_exception_success [of i retries func ops delay v]
    by blast
qed


lemma all_le_1: "(\<forall>k\<le>Suc 0. P k) \<longleftrightarrow> P 0 \<and> P (Suc 0)"
  by (auto simp: le_Suc_eq)

lemma all_less_2: "(\<forall>k<Suc (Suc 0). P k) \<longleftrightarrow> P 0 \<and> P (Suc 0)"
  by (auto simp: less_Suc_eq)

lemma sim_attempts:
  "isl (fst (sim_call (sim_start two_failures c)))"
  "isl (fst (sim_call (attempt_state sim_ops sim_call (Some RemoteWebDriver) (Suc 0)
                        (sim_start two_failures c))))"
  "\<not> isl (fst (sim_call (attempt_state sim_ops sim_call (Some RemoteWebDriver) (Suc (Suc 0))
                        (sim_start two_failures c))))"
  "projl (fst (sim_call (attempt_state sim_ops sim_call (Some RemoteWebDriver) (Suc 0)
                        (sim_start two_failures c)))) = TimeoutException (ascii ''second'')"
  by (simp_all add: sim_start_def sim_call_def sim_ops_def sim_config_def two_failures_def refresh_and_wait_def)

lemma sim_wrapper_attempts:
  "isl (fst (sim_call (wrapper_state sim_ops 1 sim_call (Suc 0) (sim_start two_failures c))))"
  "\<not> isl (fst (sim_call (wrapper_state sim_ops 1 sim_call (Suc (Suc 0)) (sim_start two_failures c))))"
  "projl (fst (sim_call (wrapper_state sim_ops 1 sim_call (Suc 0) (sim_start two_failures c))))
     = TimeoutException (ascii ''second'')"
  "projr (fst (sim_call (wrapper_state sim_ops 1 sim_call (Suc (Suc 0)) (sim_start two_failures c))))
     = ()"
  by (simp_all add: sim_start_def sim_call_def sim_ops_def sim_config_def two_failures_def)

text \<open>The statement in the scripted browser whose first call raises \<open>Exception("first")\<close> and
  whose second raises \<open>TimeoutException("second")\<close>: with two attempts the second error is
  reported, with three the step passes.\<close>

theorem retry_surfaces_last_failure_witness:
  "fst (sim_retry_run 1) = Some False
   \<and> error (fst (snd (sim_retry_run 1))) = Some (step_error_text 3 (ascii ''second''))
   \<and> map_of (to_dict_lks (fst (snd (sim_retry_run 1)))) (ascii ''error'')
        = Some (JStr (step_error_text 3 (ascii ''second'')))
   \<and> error (fst (snd (sim_retry_run 1)))
        = Some ([1064, 1072, 1075, 32, 51, 32, 1086, 1096, 1080, 1073, 1082, 1072, 58, 32,
                 115, 101, 99, 111, 110, 100])
   \<and> map_of (to_dict_lks (fst (snd (sim_retry_run 1)))) (ascii ''error'')
        = Some (JStr [1064, 1072, 1075, 32, 51, 32, 1086, 1096, 1080, 1073, 1082, 1072, 58, 32,
                 115, 101, 99, 111, 110, 100])
   \<and> error (fst (snd (sim_retry_run 1))) \<noteq> Some (step_error_text 3 (ascii ''first''))
   \<and> fst (sim_retry_run 2) = Some True
   \<and> fst (sim_wrapper_run 2) = Inl (TimeoutException (ascii ''second''))
   \<and> fst (sim_wrapper_run 3) = Inr (Some ())"
proof -
  let ?w = "sim_start two_failures (Inr (ascii ''cG5n''))"
  let ?d = "Some RemoteWebDriver"
  have fail1: "\<forall>k\<le>1. isl (fst (sim_call (attempt_state sim_ops sim_call ?d k ?w)))"
    using sim_attempts(1,2) [of "Inr (ascii ''cG5n'')"] by (simp add: all_le_1)
  have ok2: "2 \<le> (2::nat) \<and> (\<forall>k<2. isl (fst (sim_call (attempt_state sim_ops sim_call ?d k ?w))))
      \<and> \<not> isl (fst (sim_call (attempt_state sim_ops sim_call ?d 2 ?w)))"
    using sim_attempts(1,2,3) [of "Inr (ascii ''cG5n'')"]
    by (simp add: all_less_2 numeral_2_eq_2)
  have wfail: "0 < (2::int) \<and> (\<forall>k<nat 2. isl (fst (sim_call (wrapper_state sim_ops 1 sim_call k ?w))))"
    using sim_attempts(1) [of "Inr (ascii ''cG5n'')"] sim_wrapper_attempts(1) [of "Inr (ascii ''cG5n'')"]
    by (simp add: all_less_2 numeral_2_eq_2)
  have wok: "int 2 < 3 \<and> (\<forall>k<2. isl (fst (sim_call (wrapper_state sim_ops 1 sim_call k ?w))))
      \<and> \<not> isl (fst (sim_call (wrapper_state sim_ops 1 sim_call 2 ?w)))"
    using sim_attempts(1) [of "Inr (ascii ''cG5n'')"] sim_wrapper_attempts(1,2) [of "Inr (ascii ''cG5n'')"]
    by (simp add: all_less_2 numeral_2_eq_2)
  note first = retry_surfaces_last_failure
    [where max_retries = 1 and action = sim_call and ops = sim_ops and drv = ?d and w = ?w
       and cfg = sim_config and n = 3 and key = "ascii ''step_03''" and descr = None
       and r = "TestResult 0" and j = 0 and retries = 2 and func = sim_call and delay = 1
       and v = ?w and i = 0 and a = "ascii ''second''" and b = "ascii ''first''"
       and t = "ascii ''first''"]
  note second = retry_surfaces_last_failure
    [where max_retries = 2 and action = sim_call and ops = sim_ops and drv = ?d and w = ?w
       and cfg = sim_config and n = 3 and key = "ascii ''step_03''" and descr = None
       and r = "TestResult 0" and j = 2 and retries = 3 and func = sim_call and delay = 1
       and v = ?w and i = 2]
  from first have dig: "str_nat 3 = [51]" by simp
  from first have inj: "step_error_text 3 (ascii ''second'') \<noteq> step_error_text 3 (ascii ''first'')"
    by simp
  from first have "(\<forall>k\<le>1. isl (fst (sim_call (attempt_state sim_ops sim_call ?d k ?w)))) \<longrightarrow>
      (let e = projl (fst (sim_call (attempt_state sim_ops sim_call ?d 1 ?w)));
           out = execute_step_with_retry sim_ops sim_config 3 (ascii ''step_03'') sim_call ?d None 1
                   (TestResult 0) ?w;
           r' = fst (snd out)
       in fst out = Some False
          \<and> error r' = Some (step_error_text 3 (str_exn e))
          \<and> map_of (to_dict_lks r') (ascii ''error'') = Some (JStr (step_error_text 3 (str_exn e))))"
    by (simp only: Let_def) blast
  with fail1 have e1:
    "fst (sim_retry_run 1) = Some False
     \<and> error (fst (snd (sim_retry_run 1))) = Some (step_error_text 3 (ascii ''second''))
     \<and> map_of (to_dict_lks (fst (snd (sim_retry_run 1)))) (ascii ''error'')
        = Some (JStr (step_error_text 3 (ascii ''second'')))"
    using sim_attempts(4) [of "Inr (ascii ''cG5n'')"]
    by (simp add: sim_retry_run_def Let_def)
  have lit: "step_error_text 3 (ascii ''second'')
       = [1064, 1072, 1075, 32, 51, 32, 1086, 1096, 1080, 1073, 1082, 1072, 58, 32,
                 115, 101, 99, 111, 110, 100]"
    by (simp add: step_error_text_def dig ascii_def)
  from second ok2 have e2: "fst (sim_retry_run 2) = Some True"
    by (simp add: sim_retry_run_def Let_def)
  from first wfail have e3: "fst (sim_wrapper_run 2) = Inl (TimeoutException (ascii ''second''))"
    using sim_wrapper_attempts(3) [of "Inr (ascii ''cG5n'')"]
    by (simp add: sim_wrapper_run_def)
  from second wok have e4: "fst (sim_wrapper_run 3) = Inr (Some ())"
    by (simp add: sim_wrapper_run_def)
  from e1 inj lit e2 e3 e4 show ?thesis by simp
qed

section \<open>The recorded duration\<close>

lemma execute_step_with_retry_steps_success:
  assumes "j \<le> max_retries"
    and "\<forall>k<j. isl (fst (action (attempt_state ops action drv k w)))"
    and "\<not> isl (fst (action (attempt_state ops action drv j w)))"
  shows "steps (fst (snd (execute_step_with_retry ops cfg n key action drv descr max_retries r w))) =
     AList.update key
       \<lparr>step_status = ascii ''1'',
        duration_seconds =
          py_round2 (time_time ops (snd (action (attempt_state ops action drv j w)))
                      - time_time ops (attempt_state ops action drv j w))\<rparr> (steps r)"
  by (simp add: execute_step_with_retry_success [OF assms] add_step_def)

lemma execute_step_with_retry_steps_failure:
  assumes "\<forall>k\<le>max_retries. isl (fst (action (attempt_state ops action drv k w)))"
  shows "steps (fst (snd (execute_step_with_retry ops cfg n key action drv descr max_retries r w))) =
     AList.update key
       \<lparr>step_status = ascii ''0'',
        duration_seconds =
          py_round2
            (time_time ops
               (snd (snd (capture_screenshot ops r
                            (snd (action (attempt_state ops action drv max_retries w))))))
             - time_time ops (attempt_state ops action drv max_retries w))\<rparr> (steps r)"
  by (simp add: execute_step_with_retry_failure [OF assms] split_beta step_failed_fields)

text \<open>
  C10. The duration recorded by \<open>execute_step_with_retry\<close> is measured from the \<open>t0\<close> read at
  the top of the attempt that ends the step. If attempt \<open>j\<close> is the first to return, the
  entry has status \<open>"1"\<close> and the rounded time between the start of attempt \<open>j\<close> and its
  return. If all attempts fail, the entry has status \<open>"0"\<close> and the rounded time between the
  start of the last attempt and the moment after the screenshot was taken. The state in
  which attempt \<open>j\<close> starts is the one reached after the \<open>j\<close> failed attempts and \<open>j\<close>
  recoveries before it, so their time is not part of the duration.
\<close>

theorem recorded_duration_of_final_attempt:
  "(j \<le> max_retries \<and> (\<forall>k<j. isl (fst (action (attempt_state ops action drv k w))))
      \<and> \<not> isl (fst (action (attempt_state ops action drv j w))) \<longrightarrow>
      map_of (steps (fst (snd (execute_step_with_retry ops cfg n key action drv descr
                                max_retries r w)))) key =
        Some \<lparr>step_status = ascii ''1'',
              duration_seconds =
                py_round2 (time_time ops (snd (action (attempt_state ops action drv j w)))
                            - time_time ops (attempt_state ops action drv j w))\<rparr>)
   \<and> ((\<forall>k\<le>max_retries. isl (fst (action (attempt_state ops action drv k w)))) \<longrightarrow>
      map_of (steps (fst (snd (execute_step_with_retry ops cfg n key action drv descr
                                max_retries r w)))) key =
        Some \<lparr>step_status = ascii ''0'',
              duration_seconds =
                py_round2
                  (time_time ops
                     (snd (snd (capture_screenshot ops r
                                  (snd (action (attempt_state ops action drv max_retries w))))))
                   - time_time ops (attempt_state ops action drv max_retries w))\<rparr>)"
  using execute_step_with_retry_steps_success [of j max_retries action ops drv w cfg n key descr r]
    execute_step_with_retry_steps_failure [of max_retries action ops drv w cfg n key descr r]
  by (simp add: update_conv')

text \<open>The statement in the scripted browser, where an attempt takes one second and a
  recovery five: the passing third attempt starts at second 12 and the run ends at second
  13 with a recorded duration of 1; with two attempts the second starts at second 6 and the
  recorded duration of the failed step is 1.\<close>

theorem recorded_duration_of_final_attempt_witness:
  "sim_clock (attempt_state sim_ops sim_call (Some RemoteWebDriver) 2
                (sim_start two_failures (Inr (ascii ''cG5n'')))) = 12
   \<and> sim_clock (snd (snd (sim_retry_run 2))) = 13
   \<and> map_of (steps (fst (snd (sim_retry_run 2)))) (ascii ''step_03'')
        = Some \<lparr>step_status = ascii ''1'', duration_seconds = 1\<rparr>
   \<and> sim_clock (attempt_state sim_ops sim_call (Some RemoteWebDriver) 1
                (sim_start two_failures (Inr (ascii ''cG5n'')))) = 6
   \<and> sim_clock (snd (snd (sim_retry_run 1))) = 7
   \<and> map_of (steps (fst (snd (sim_retry_run 1)))) (ascii ''step_03'')
        = Some \<lparr>step_status = ascii ''0'', duration_seconds = 1\<rparr>"
proof -
  let ?w = "sim_start two_failures (Inr (ascii ''cG5n''))"
  let ?d = "Some RemoteWebDriver"
  have fail1: "\<forall>k\<le>1. isl (fst (sim_call (attempt_state sim_ops sim_call ?d k ?w)))"
    using sim_attempts(1,2) [of "Inr (ascii ''cG5n'')"] by (simp add: all_le_1)
  have ok2: "2 \<le> (2::nat) \<and> (\<forall>k<2. isl (fst (sim_call (attempt_state sim_ops sim_call ?d k ?w))))
      \<and> \<not> isl (fst (sim_call (attempt_state sim_ops sim_call ?d 2 ?w)))"
    using sim_attempts(1,2,3) [of "Inr (ascii ''cG5n'')"]
    by (simp add: all_less_2 numeral_2_eq_2)
  have clocks: "sim_clock (attempt_state sim_ops sim_call ?d 2 ?w) = 12"
    "sim_clock (snd (sim_call (attempt_state sim_ops sim_call ?d 2 ?w))) = 13"
    "sim_clock (attempt_state sim_ops sim_call ?d 1 ?w) = 6"
    "sim_clock (snd (snd (capture_screenshot sim_ops (TestResult 0)
        (snd (sim_call (attempt_state sim_ops sim_call ?d 1 ?w)))))) = 7"
    by (simp_all add: numeral_2_eq_2 sim_start_def sim_call_def sim_ops_def two_failures_def
          refresh_and_wait_def capture_screenshot_def)
  note first = recorded_duration_of_final_attempt
    [where max_retries = 1 and action = sim_call and ops = sim_ops and drv = ?d and w = ?w
       and cfg = sim_config and n = 3 and key = "ascii ''step_03''" and descr = None
       and r = "TestResult 0" and j = 0]
  note second = recorded_duration_of_final_attempt
    [where max_retries = 2 and action = sim_call and ops = sim_ops and drv = ?d and w = ?w
       and cfg = sim_config and n = 3 and key = "ascii ''step_03''" and descr = None
       and r = "TestResult 0" and j = 2]
  from second ok2 have "map_of (steps (fst (snd (sim_retry_run 2)))) (ascii ''step_03'')
        = Some \<lparr>step_status = ascii ''1'', duration_seconds = 1\<rparr>"
    by (simp add: sim_retry_run_def numeral_2_eq_2 sim_start_def sim_call_def sim_ops_def
          two_failures_def refresh_and_wait_def)
  moreover from first fail1 have "map_of (steps (fst (snd (sim_retry_run 1)))) (ascii ''step_03'')
        = Some \<lparr>step_status = ascii ''0'', duration_seconds = 1\<rparr>"
    by (simp add: sim_retry_run_def sim_start_def sim_call_def sim_ops_def
          two_failures_def refresh_and_wait_def capture_screenshot_def)
  moreover have "sim_clock (snd (snd (sim_retry_run 2))) = 13"
    using clocks(2) ok2
    by (simp add: sim_retry_run_def
          execute_step_with_retry_success [where j = 2 and action = sim_call and ops = sim_ops])
  moreover have "sim_clock (snd (snd (sim_retry_run 1))) = 7"
    by (simp add: sim_retry_run_def execute_step_with_retry_def upt_small two_failures_def
          sim_start_def sim_call_def sim_ops_def refresh_and_wait_def Let_def step_failed_def
          capture_screenshot_def)
  ultimately show ?thesis using clocks(1,3) by blast
qed


section \<open>Where the recovery runs\<close>

text \<open>
  C6, as stated, fails on the count. With three attempts allowed, an action that fails twice
  and then returns is reported as passed with one recorded step, but the page is refreshed
  twice, once after each failed attempt; the same holds for the wrapper of
  \<open>retry_on_exception(retries=3)\<close>.
\<close>

theorem one_recovery_counterexample:
  "fst (sim_retry_run 2) = Some True
   \<and> steps (fst (snd (sim_retry_run 2)))
        = [(ascii ''step_03'', \<lparr>step_status = ascii ''1'', duration_seconds = 1\<rparr>)]
   \<and> sim_events (snd (snd (sim_retry_run 2)))
        = [Attempt False, Recovery, Attempt False, Recovery, Attempt True]
   \<and> length (filter (\<lambda>e. e = Recovery) (sim_events (snd (snd (sim_retry_run 2))))) = 2
   \<and> length (filter (\<lambda>e. e = Recovery) (sim_events (snd (snd (sim_retry_run 2))))) \<noteq> 1
   \<and> fst (sim_wrapper_run 3) = Inr (Some ())
   \<and> length (filter (\<lambda>e. e = Recovery) (sim_events (snd (sim_wrapper_run 3)))) = 2"
  by (simp add: sim_retry_run_def sim_wrapper_run_def execute_step_with_retry_def
        retry_on_exception_def upt_small upt_rec [of 0 3] two_failures_def sim_start_def sim_call_def
        sim_ops_def refresh_and_wait_def Let_def add_step_def TestResult_def)

text \<open>
  C6, amended. For a browser whose record of calls is read by \<open>tr\<close>, the calls made by
  \<open>execute_step_with_retry\<close> (with a driver) are \<open>j\<close> rounds of a failed attempt followed by a
  recovery, and then one last attempt: a recovery never comes first, never comes last, and
  always stands between a failed attempt and the next attempt. The function returns \<open>True\<close>
  when the last attempt returned, and \<open>False\<close> only after attempt \<open>max_retries\<close>. The wrapper of
  \<open>retry_on_exception\<close> makes its calls in the same pattern. With \<open>max_retries = 2\<close>, an action
  that fails twice and then returns gives \<open>True\<close>, exactly two recoveries, and a result whose
  steps hold the one entry of this step, with status \<open>"1"\<close>.
\<close>

theorem recovery_strictly_between_attempts:
  "(traced ops action tr \<longrightarrow>
      (\<exists>j b. j \<le> max_retries
         \<and> tr (snd (snd (execute_step_with_retry ops cfg n key action (Some d) descr
                           max_retries r w)))
             = tr w @ failed_rounds j @ [Attempt b]
         \<and> fst (execute_step_with_retry ops cfg n key action (Some d) descr max_retries r w)
             = Some b
         \<and> (\<not> b \<longrightarrow> j = max_retries)))
   \<and> (traced ops func tr \<and> 0 < retries \<longrightarrow>
      (\<exists>j b. int j < retries
         \<and> tr (snd (retry_on_exception ops retries delay func v))
             = tr v @ failed_rounds j @ [Attempt b]
         \<and> (b \<longleftrightarrow> \<not> isl (fst (retry_on_exception ops retries delay func v)))
         \<and> (\<not> b \<longrightarrow> int j = retries - 1)))
   \<and> (traced ops action tr
        \<and> isl (fst (action w))
        \<and> isl (fst (action (attempt_state ops action (Some d) 1 w)))
        \<and> \<not> isl (fst (action (attempt_state ops action (Some d) 2 w))) \<longrightarrow>
      (let out = execute_step_with_retry ops cfg n key action (Some d) descr 2 (TestResult t0) w
       in fst out = Some True
          \<and> tr (snd (snd out))
              = tr w @ [Attempt False, Recovery, Attempt False, Recovery, Attempt True]
          \<and> (\<exists>dur. steps (fst (snd out))
                       = [(key, \<lparr>step_status = ascii ''1'', duration_seconds = dur\<rparr>)])))"
proof -
  have third: "let out = execute_step_with_retry ops cfg n key action (Some d) descr 2 (TestResult t0) w
       in fst out = Some True
          \<and> tr (snd (snd out))
              = tr w @ [Attempt False, Recovery, Attempt False, Recovery, Attempt True]
          \<and> (\<exists>dur. steps (fst (snd out))
                       = [(key, \<lparr>step_status = ascii ''1'', duration_seconds = dur\<rparr>)])"
    if t: "traced ops action tr" and f0: "isl (fst (action w))"
      and f1: "isl (fst (action (attempt_state ops action (Some d) 1 w)))"
      and s2: "\<not> isl (fst (action (attempt_state ops action (Some d) 2 w)))"
  proof -
    have fails: "\<forall>k<2. isl (fst (action (attempt_state ops action (Some d) k w)))"
      using f0 f1 by (simp add: all_less_2 numeral_2_eq_2)
    have le: "(2::nat) \<le> 2" by simp
    from t have a: "\<And>w. tr (snd (action w)) = tr w @ [Attempt (\<not> isl (fst (action w)))]"
      by (simp add: traced_def)
    have "tr (attempt_state ops action (Some d) 2 w) = tr w @ failed_rounds 2"
      using traced_attempt_state [OF t fails] .
    then have "tr (snd (action (attempt_state ops action (Some d) 2 w)))
        = tr w @ [Attempt False, Recovery, Attempt False, Recovery, Attempt True]"
      using a [of "attempt_state ops action (Some d) 2 w"] s2
      by (simp add: failed_rounds_def numeral_2_eq_2)
    moreover have "steps (fst (snd (execute_step_with_retry ops cfg n key action (Some d) descr 2
                                     (TestResult t0) w)))
        = [(key, \<lparr>step_status = ascii ''1'',
                  duration_seconds =
                    py_round2 (time_time ops (snd (action (attempt_state ops action (Some d) 2 w)))
                               - time_time ops (attempt_state ops action (Some d) 2 w))\<rparr>)]"
      unfolding execute_step_with_retry_steps_success [OF le fails s2]
      by (simp add: TestResult_def)
    ultimately show ?thesis
      unfolding Let_def execute_step_with_retry_success [OF le fails s2] by simp
  qed
  show ?thesis
    using execute_step_with_retry_trace [of ops action tr max_retries cfg n key d descr r w]
      retry_on_exception_trace [of ops func tr retries delay v] third
    by blast
qed

text \<open>The scripted browser records its calls in \<open>sim_events\<close>; the statement there.\<close>

theorem recovery_strictly_between_attempts_witness:
  "traced sim_ops sim_call sim_events
   \<and> isl (fst (sim_call (sim_start two_failures (Inr (ascii ''cG5n'')))))
   \<and> fst (sim_retry_run 2) = Some True
   \<and> sim_events (snd (snd (sim_retry_run 2)))
       = [Attempt False, Recovery, Attempt False, Recovery, Attempt True]"
proof -
  let ?w = "sim_start two_failures (Inr (ascii ''cG5n''))"
  have hyp: "traced sim_ops sim_call sim_events
        \<and> isl (fst (sim_call ?w))
        \<and> isl (fst (sim_call (attempt_state sim_ops sim_call (Some RemoteWebDriver) 1 ?w)))
        \<and> \<not> isl (fst (sim_call (attempt_state sim_ops sim_call (Some RemoteWebDriver) 2 ?w)))"
    using traced_sim sim_attempts [of "Inr (ascii ''cG5n'')"] by (simp add: numeral_2_eq_2)
  have e: "sim_events ?w = []" by (simp add: sim_start_def)
  from recovery_strictly_between_attempts
    [where ops = sim_ops and action = sim_call and tr = sim_events and w = ?w
       and d = RemoteWebDriver and cfg = sim_config and n = 3 and key = "ascii ''step_03''"
       and descr = None and ?t0.0 = 0 and max_retries = 2 and r = "TestResult 0"
       and func = sim_call and retries = 1 and delay = 1 and v = ?w] hyp
  have "fst (sim_retry_run 2) = Some True
     \<and> sim_events (snd (snd (sim_retry_run 2)))
       = sim_events ?w @ [Attempt False, Recovery, Attempt False, Recovery, Attempt True]"
    unfolding sim_retry_run_def Let_def by blast
  with hyp e show ?thesis by simp
qed

section \<open>finalize\<close>

lemma test_info_add_step [simp]: "test_info (add_step r k st d) = test_info r"
  by (simp add: add_step_def Let_def)

lemma test_info_set_screenshot [simp]: "test_info (set_screenshot_b64 r b) = test_info r"
  by (simp add: set_screenshot_b64_def)

text \<open>
  C7, as stated, fails: \<open>finalize\<close> has no guard. A second call one second after the first
  is accepted and replaces \<open>total_duration\<close> 1 by 2.
\<close>

theorem finalize_twice_counterexample:
  "test_info (finalize (TestResult 0) 1 True [] None) = [(ascii ''total_duration'', 1)]
   \<and> test_info (finalize (finalize (TestResult 0) 1 True [] None) 2 True [] None)
        = [(ascii ''total_duration'', 2)]
   \<and> test_info (finalize (finalize (TestResult 0) 1 True [] None) 2 True [] None)
        \<noteq> test_info (finalize (TestResult 0) 1 True [] None)"
  by (simp add: finalize_def TestResult_def)

text \<open>
  C7, amended. \<open>finalize\<close> is not guarded against repeated invocation: a second call is
  accepted and overwrites \<open>success\<close>, \<open>status\<close>, \<open>message\<close>, \<open>error\<close> and
  \<open>total_duration\<close>, and the object is as if only the second call had been made.
  \<open>total_duration\<close> is the rounded time between \<open>start_time\<close> and the call that stored it, so
  the second call changes it exactly when the two rounded durations differ; \<open>start_time\<close> is
  never changed by \<open>finalize\<close>. \<open>add_step\<close> and \<open>set_screenshot_b64\<close> leave \<open>test_info\<close>
  alone.
\<close>

theorem finalize_last_call_wins:
  "finalize (finalize r e1 s1 m1 x1) e2 s2 m2 x2 = finalize r e2 s2 m2 x2
   \<and> success (finalize (finalize r e1 s1 m1 x1) e2 s2 m2 x2) = s2
   \<and> status (finalize (finalize r e1 s1 m1 x1) e2 s2 m2 x2) = (if s2 then ascii ''1'' else ascii ''0'')
   \<and> message (finalize (finalize r e1 s1 m1 x1) e2 s2 m2 x2) = m2
   \<and> error (finalize (finalize r e1 s1 m1 x1) e2 s2 m2 x2) = x2
   \<and> test_info (finalize (finalize r e1 s1 m1 x1) e2 s2 m2 x2)
        = [(ascii ''total_duration'', py_round2 (e2 - start_time r))]
   \<and> (test_info (finalize (finalize r e1 s1 m1 x1) e2 s2 m2 x2)
        = test_info (finalize r e1 s1 m1 x1)
      \<longleftrightarrow> py_round2 (e2 - start_time r) = py_round2 (e1 - start_time r))
   \<and> start_time (finalize r e s m x) = start_time r
   \<and> test_info (finalize r e s m x) = [(ascii ''total_duration'', py_round2 (e - start_time r))]
   \<and> test_info (add_step r k st d) = test_info r
   \<and> test_info (set_screenshot_b64 r b) = test_info r"
  by (simp add: finalize_def)

section \<open>Runs of main\<close>

lemma retry_attempts_retried:
  assumes "i + m = max_retries" and "\<not> isl (fst (retried ops drv m action w))"
  shows "\<exists>d. retry_attempts ops cfg n key action drv descr max_retries [i..<max_retries + 1] r w
           = (Some True, add_step r key (ascii ''1'') d, snd (retried ops drv m action w))"
  using assms
proof (induction m arbitrary: i w)
  case 0
  then have l: "[i..<max_retries + 1] = [i]" by simp
  from 0 obtain w1 where "action w = (Inr (), w1)"
    by (cases "action w"; cases "fst (action w)") auto
  then show ?case unfolding l by (auto simp: Let_def)
next
  case (Suc m)
  then have l: "[i..<max_retries + 1] = i # [Suc i..<max_retries + 1]" and lt: "i < max_retries"
    by (simp_all add: upt_conv_Cons)
  obtain x w1 where a: "action w = (x, w1)" by (cases "action w")
  show ?case
  proof (cases x)
    case (Inr u)
    with a have "retry_attempts ops cfg n key action drv descr max_retries
          (i # [Suc i..<max_retries + 1]) r w
        = (Some True, add_step r key (ascii ''1'') (time_time ops w1 - time_time ops w),
           snd (retried ops drv (Suc m) action w))"
      by (simp add: Let_def del: upt_Suc)
    then show ?thesis unfolding l by blast
  next
    case (Inl e)
    with a Suc.prems have "\<not> isl (fst (retried ops drv m action (refresh_and_wait ops drv w1)))"
      by simp
    from Suc.IH [OF _ this, of "Suc i"] Suc.prems(1)
    obtain d where "retry_attempts ops cfg n key action drv descr max_retries
          [Suc i..<max_retries + 1] r (refresh_and_wait ops drv w1)
        = (Some True, add_step r key (ascii ''1'') d,
           snd (retried ops drv m action (refresh_and_wait ops drv w1)))"
      by auto
    with a Inl lt have "retry_attempts ops cfg n key action drv descr max_retries
          (i # [Suc i..<max_retries + 1]) r w
        = (Some True, add_step r key (ascii ''1'') d, snd (retried ops drv (Suc m) action w))"
      by (simp add: Let_def del: upt_Suc)
    then show ?thesis unfolding l by blast
  qed
qed

lemma execute_step_with_retry_retried:
  assumes "\<not> isl (fst (retried ops drv m action w))"
  shows "\<exists>d. execute_step_with_retry ops cfg n key action drv descr m r w
           = (Some True, add_step r key (ascii ''1'') d, snd (retried ops drv m action w))"
  unfolding execute_step_with_retry_def
  using retry_attempts_retried [of 0 m m ops drv action w cfg n key descr r] assms by simp

text \<open>What the report of a passed run says, for a result and the report built from it.\<close>

lemma add_step_passed_fields:
  "success (add_step r k (ascii ''1'') d) = success r"
  "status (add_step r k (ascii ''1'') d) = status r"
  "error (add_step r k (ascii ''1'') d) = error r"
  "screenshot (add_step r k (ascii ''1'') d) = screenshot r"
  by (simp_all add: add_step_def Let_def)

lemma lks_steps_all_pass:
  assumes "all_return (map (\<lambda>s. retried ops drv 2 (step (fst s))) ss) w"
  shows "exit_code (lks_steps ops step cfg drv ss r w) = 0
     \<and> success (final_result (lks_steps ops step cfg drv ss r w))
     \<and> status (final_result (lks_steps ops step cfg drv ss r w)) = ascii ''1''
     \<and> error (final_result (lks_steps ops step cfg drv ss r w)) = None
     \<and> screenshot (final_result (lks_steps ops step cfg drv ss r w)) = screenshot r
     \<and> (\<exists>w'. final_state (lks_steps ops step cfg drv ss r w)
               = print_json ops (to_dict_lks (final_result (lks_steps ops step cfg drv ss r w))) w')"
  using assms
proof (induction ss arbitrary: r w)
  case Nil
  show ?case by (auto simp: Let_def finalize_def)
next
  case (Cons s ss)
  obtain n key descr where s: "s = (n, key, descr)" by (cases s) auto
  obtain x w1 where a: "retried ops drv 2 (step n) w = (x, w1)"
    by (cases "retried ops drv 2 (step n) w")
  from Cons.prems a s have ok: "\<not> isl x"
    by (cases x) simp_all
  from Cons.prems a s have rest:
    "all_return (map (\<lambda>s. retried ops drv 2 (step (fst s))) ss) w1"
    by (cases x) simp_all
  from ok a have "\<not> isl (fst (retried ops drv 2 (step n) w))" by simp
  from execute_step_with_retry_retried [OF this, of cfg n key "Some descr" r] a
  obtain d where e: "execute_step_with_retry ops cfg n key (step n) drv (Some descr) 2 r w
           = (Some True, add_step r key (ascii ''1'') d, w1)"
    by auto
  show ?case
    using Cons.IH [OF rest, of "add_step r key (ascii ''1'') d"]
    by (simp add: s e add_step_passed_fields)
qed

lemma itrans_steps_all_pass:
  assumes "all_return (map (\<lambda>s. step (fst s) test) ss) w"
  shows "exit_code (itrans_steps ops step cfg test ss r w) = 0
     \<and> success (final_result (itrans_steps ops step cfg test ss r w))
     \<and> status (final_result (itrans_steps ops step cfg test ss r w)) = ascii ''1''
     \<and> error (final_result (itrans_steps ops step cfg test ss r w)) = None
     \<and> screenshot (final_result (itrans_steps ops step cfg test ss r w)) = screenshot r
     \<and> final_test (itrans_steps ops step cfg test ss r w) = test
     \<and> (\<exists>w'. final_state (itrans_steps ops step cfg test ss r w)
               = print_json ops (to_dict (final_result (itrans_steps ops step cfg test ss r w))) w')"
  using assms
proof (induction ss arbitrary: r w)
  case Nil
  show ?case by (auto simp: Let_def finalize_def)
next
  case (Cons s ss)
  obtain n key where s: "s = (n, key)" by (cases s) auto
  obtain x w1 where a: "step n test w = (x, w1)" by (cases "step n test w")
  from Cons.prems a s obtain u where x: "x = Inr u" and rest:
    "all_return (map (\<lambda>s. step (fst s) test) ss) w1"
    by (cases x) simp_all
  have e: "itrans_step ops cfg n key (step n test) r w
             = Passed (add_step r key (ascii ''1'') (time_time ops w1 - time_time ops w)) w1"
    using a x by (simp add: itrans_step_def Let_def)
  show ?case
    using Cons.IH [OF rest, of "add_step r key (ascii ''1'') (time_time ops w1 - time_time ops w)"]
    by (simp add: s e add_step_passed_fields)
qed

lemma ascii_Nil_iff [simp]: "ascii s = [] \<longleftrightarrow> s = []" "[] = ascii s \<longleftrightarrow> s = []"
  by (auto simp: ascii_def)

lemmas sim_eval = sim_itrans_main_def sim_lks_main_def itrans_main_def lks_main_def
  itrans_step_def itrans_later_steps_def lks_step_list_def itrans_critical_def lks_general_error_def
  itrans_quit_def quit_driver_def execute_step_with_retry_def step_failed_def
  capture_screenshot_def refresh_and_wait_def upt_small
  sim_start_def sim_call_def sim_ops_def sim_config_def py_not_def ItransTest_def
  session_lost_def Let_def

text \<open>
  C1 fails in itrans.py when the screenshot of the failure handler raises. Here the browser
  session is lost during step 1: the step function raises and so does
  \<open>get_screenshot_b64\<close>, which the step handlers of itrans.py call unguarded before
  \<open>add_step\<close>. The exception leaves the handler, the outer \<open>except\<close> of \<open>main\<close> reports a
  critical error, and the printed report has no entry for the failed step: \<open>steps\<close> is
  empty although step 1 was executed and failed.
\<close>

theorem itrans_main_capture_failure_loses_step:
  "exit_code (sim_itrans_main [Inl session_lost] (Inl session_lost)) = 1
   \<and> sim_events (final_state (sim_itrans_main [Inl session_lost] (Inl session_lost)))
        = [Attempt False]
   \<and> steps (final_result (sim_itrans_main [Inl session_lost] (Inl session_lost))) = []
   \<and> \<not> success (final_result (sim_itrans_main [Inl session_lost] (Inl session_lost)))
   \<and> message (final_result (sim_itrans_main [Inl session_lost] (Inl session_lost)))
        = critical_failed_text
   \<and> sim_stdout (final_state (sim_itrans_main [Inl session_lost] (Inl session_lost)))
        = [to_dict (final_result (sim_itrans_main [Inl session_lost] (Inl session_lost)))]"
  by (simp add: sim_eval finalize_def TestResult_def)

text \<open>The sibling path: \<open>execute_step_with_retry\<close> of lks.py guards the screenshot, and in the
  same situation records the failed step. With a screenshot that works, itrans.py records
  it too, and runs no step after the failed one.\<close>

lemma lks_main_capture_failure_keeps_step:
  "exit_code (sim_lks_main [Inl session_lost, Inl session_lost, Inl session_lost]
                (Inl session_lost)) = 1
   \<and> steps (final_result (sim_lks_main [Inl session_lost, Inl session_lost, Inl session_lost]
                (Inl session_lost)))
        = [(ascii ''step_01_open_and_authenticate'',
            \<lparr>step_status = ascii ''0'', duration_seconds = 1\<rparr>)]"
  by (simp add: sim_eval finalize_def TestResult_def add_step_def)

lemma itrans_main_capture_success_keeps_step:
  "exit_code (sim_itrans_main [Inr (), Inl session_lost] (Inr (ascii ''cG5n''))) = 1
   \<and> sim_events (final_state (sim_itrans_main [Inr (), Inl session_lost] (Inr (ascii ''cG5n''))))
        = [Attempt True, Attempt False]
   \<and> steps (final_result (sim_itrans_main [Inr (), Inl session_lost] (Inr (ascii ''cG5n''))))
        = [(ascii ''test_01_open_and_login'', \<lparr>step_status = ascii ''1'', duration_seconds = 1\<rparr>),
           (ascii ''test_02_open_coordinator_module'',
            \<lparr>step_status = ascii ''0'', duration_seconds = 1\<rparr>)]"
  by (simp add: sim_eval finalize_def TestResult_def add_step_def set_screenshot_b64_def)

text \<open>
  C8, as stated, fails on the \<open>error\<close> field of itrans.py: in a run where all five steps
  pass, the printed report has the key \<open>"error"\<close>, bound to \<open>null\<close>; the field is not absent.
\<close>

theorem error_field_present_counterexample:
  "exit_code (sim_itrans_main [] (Inr (ascii ''cG5n''))) = 0
   \<and> map fst (steps (final_result (sim_itrans_main [] (Inr (ascii ''cG5n'')))))
        = [ascii ''test_01_open_and_login'', ascii ''test_02_open_coordinator_module'',
           ascii ''test_03_open_analytics_module'', ascii ''test_04_open_resources_module'',
           ascii ''test_05_open_sales_module'']
   \<and> sim_stdout (final_state (sim_itrans_main [] (Inr (ascii ''cG5n''))))
        = [to_dict (final_result (sim_itrans_main [] (Inr (ascii ''cG5n''))))]
   \<and> map_of (to_dict (final_result (sim_itrans_main [] (Inr (ascii ''cG5n'')))))
        (ascii ''success'') = Some (JBool True)
   \<and> map_of (to_dict (final_result (sim_itrans_main [] (Inr (ascii ''cG5n'')))))
        (ascii ''error'') = Some JNull
   \<and> map_of (to_dict (final_result (sim_itrans_main [] (Inr (ascii ''cG5n'')))))
        (ascii ''error'') \<noteq> None"
  by (simp add: sim_eval finalize_def TestResult_def add_step_def to_dict_def json_opt_str_def)

text \<open>
  C4, as stated, fails when the login action raises: the assignment that restores the
  flag is the statement after the call (itrans.py) or the \<open>after\<close> closure (itrans\_zd.py),
  and neither runs. After the failed login step \<open>check_error_banner\<close> is \<open>False\<close>.
\<close>

theorem banner_flag_not_restored_counterexample:
  "exit_code (sim_itrans_main [Inl (Exception (ascii ''login failed''))] (Inr (ascii ''cG5n''))) = 1
   \<and> map fst (steps (final_result
        (sim_itrans_main [Inl (Exception (ascii ''login failed''))] (Inr (ascii ''cG5n'')))))
        = [ascii ''test_01_open_and_login'']
   \<and> check_error_banner (final_test
        (sim_itrans_main [Inl (Exception (ascii ''login failed''))] (Inr (ascii ''cG5n''))))
        = False
   \<and> check_error_banner (fst (snd
        (execute_login_step sim_ops sim_config (\<lambda>test. sim_call) example_test (TestResult 0)
           (sim_start [Inl (Exception (ascii ''login failed''))] (Inr (ascii ''cG5n''))))))
        = False"
  by (simp add: sim_eval finalize_def TestResult_def add_step_def set_screenshot_b64_def
        execute_login_step_def execute_step_def example_test_def)


lemma to_dict_lookup:
  "map_of (to_dict r) (ascii ''success'') = Some (JBool (success r))"
  "map_of (to_dict r) (ascii ''status'') = Some (JStr (status r))"
  "map_of (to_dict r) (ascii ''error'') = Some (json_opt_str (error r))"
  "map_of (to_dict r) (ascii ''screenshot'') = Some (json_opt_str (screenshot r))"
  by (simp_all add: to_dict_def)

lemma to_dict_lks_lookup:
  "map_of (to_dict_lks r) (ascii ''success'') = Some (JBool (success r))"
  "map_of (to_dict_lks r) (ascii ''status'') = Some (JStr (status r))"
  "map_of (to_dict_lks r) (ascii ''error'') = map_option JStr (error r)"
  "map_of (to_dict_lks r) (ascii ''screenshot'') = Some (json_opt_str (screenshot r))"
  by (simp_all add: to_dict_lks_def Let_def update_conv' split: option.splits)

lemma itrans_main_all_pass:
  assumes cred: "\<not> py_not (username cfg)" "\<not> py_not (password cfg)"
    and b: "fst (build_driver ops w) = Inr d"
    and pass: "all_return
        (step 1 \<lparr>driver = Some d, check_error_banner = False\<rparr>
           # map (\<lambda>s. step (fst s) \<lparr>driver = Some d, check_error_banner = True\<rparr>)
               itrans_later_steps)
        (snd (build_driver ops w))"
  shows "exit_code (itrans_main ops step cfg w) = 0
     \<and> success (final_result (itrans_main ops step cfg w))
     \<and> status (final_result (itrans_main ops step cfg w)) = ascii ''1''
     \<and> error (final_result (itrans_main ops step cfg w)) = None
     \<and> screenshot (final_result (itrans_main ops step cfg w)) = None
     \<and> check_error_banner (final_test (itrans_main ops step cfg w))
     \<and> (\<exists>w'. final_state (itrans_main ops step cfg w)
               = driver_quit ops
                   (print_json ops (to_dict (final_result (itrans_main ops step cfg w))) w'))"
proof -
  let ?off = "\<lparr>driver = Some d, check_error_banner = False\<rparr>"
  let ?on = "\<lparr>driver = Some d, check_error_banner = True\<rparr>"
  let ?r0 = "TestResult (time_time ops w)"
  obtain w1 where bd: "build_driver ops w = (Inr d, w1)"
    using b by (cases "build_driver ops w") auto
  obtain x w2 where a: "step 1 ?off w1 = (x, w2)" by (cases "step 1 ?off w1")
  from pass bd a obtain u where x: "x = Inr u"
    by (cases x) simp_all
  from pass bd a x have rest:
    "all_return (map (\<lambda>s. step (fst s) ?on) itrans_later_steps) w2"
    by simp
  let ?r1 = "add_step ?r0 (ascii ''test_01_open_and_login'') (ascii ''1'')
               (time_time ops w2 - time_time ops w1)"
  have s1: "itrans_step ops cfg 1 (ascii ''test_01_open_and_login'') (step 1 ?off) ?r0 w1
              = Passed ?r1 w2"
    using a x by (simp add: itrans_step_def Let_def)
  have m: "itrans_main ops step cfg w
             = itrans_quit ops (Some d)
                 (itrans_steps ops step cfg ?on itrans_later_steps ?r1 w2)"
    using cred bd s1 by (simp add: itrans_main_def Let_def ItransTest_def)
  have sc: "screenshot ?r1 = None"
    by (simp add: add_step_passed_fields TestResult_def)
  from itrans_steps_all_pass
      [where step = step and test = ?on and ss = itrans_later_steps and w = w2 and ops = ops
         and cfg = cfg and r = ?r1, OF rest] sc
  show ?thesis
    unfolding m by (auto simp: itrans_quit_def)
qed

lemma lks_main_all_pass:
  assumes cred: "\<not> py_not (username cfg)" "\<not> py_not (password cfg)"
    and b: "fst (build_driver ops w) = Inr d"
    and pass: "all_return (map (\<lambda>s. retried ops (Some d) 2 (step (fst s))) lks_step_list)
                 (snd (build_driver ops w))"
  shows "exit_code (lks_main ops step cfg w) = 0
     \<and> success (final_result (lks_main ops step cfg w))
     \<and> status (final_result (lks_main ops step cfg w)) = ascii ''1''
     \<and> error (final_result (lks_main ops step cfg w)) = None
     \<and> screenshot (final_result (lks_main ops step cfg w)) = None
     \<and> (\<exists>w'. final_state (lks_main ops step cfg w)
               = driver_quit ops
                   (print_json ops (to_dict_lks (final_result (lks_main ops step cfg w))) w'))"
proof -
  let ?r0 = "TestResult (time_time ops w)"
  obtain w1 where bd: "build_driver ops w = (Inr d, w1)"
    using b by (cases "build_driver ops w") auto
  have m: "lks_main ops step cfg w
             = quit_driver ops (Some d) (lks_steps ops step cfg (Some d) lks_step_list ?r0 w1)"
    using cred bd by (simp add: lks_main_def Let_def)
  from pass bd have rest:
    "all_return (map (\<lambda>s. retried ops (Some d) 2 (step (fst s))) lks_step_list) w1"
    by simp
  have sc: "screenshot ?r0 = None" by (simp add: TestResult_def)
  from lks_steps_all_pass
      [where step = step and drv = "Some d" and ss = lks_step_list and w = w1 and ops = ops
         and cfg = cfg and r = ?r0, OF rest] sc
  show ?thesis
    unfolding m by (auto simp: quit_driver_def)
qed

text \<open>
  C8, amended. In a run with credentials and a driver in which every step function returns
  (for lks.py: returns within its three attempts), \<open>main\<close> exits with 0 and prints a
  report with \<open>success\<close> true, \<open>status\<close> \<open>"1"\<close> and \<open>screenshot\<close> null. The report carries no
  error text: in itrans.py the key \<open>"error"\<close> is present with value null, in lks.py the key
  is absent.
\<close>

theorem passed_run_report:
  "(\<not> py_not (username cfg) \<and> \<not> py_not (password cfg) \<and> fst (build_driver ops w) = Inr d
      \<and> all_return
          (step 1 \<lparr>driver = Some d, check_error_banner = False\<rparr>
             # map (\<lambda>s. step (fst s) \<lparr>driver = Some d, check_error_banner = True\<rparr>)
                 itrans_later_steps)
          (snd (build_driver ops w)) \<longrightarrow>
      (let out = itrans_main ops step cfg w; report = to_dict (final_result out)
       in exit_code out = 0
          \<and> map_of report (ascii ''success'') = Some (JBool True)
          \<and> map_of report (ascii ''status'') = Some (JStr (ascii ''1''))
          \<and> map_of report (ascii ''screenshot'') = Some JNull
          \<and> map_of report (ascii ''error'') = Some JNull
          \<and> (\<exists>w'. final_state out = driver_quit ops (print_json ops report w'))))
   \<and> (\<not> py_not (username cfg) \<and> \<not> py_not (password cfg) \<and> fst (build_driver ops w) = Inr d
      \<and> all_return (map (\<lambda>s. retried ops (Some d) 2 (lks_step (fst s))) lks_step_list)
          (snd (build_driver ops w)) \<longrightarrow>
      (let out = lks_main ops lks_step cfg w; report = to_dict_lks (final_result out)
       in exit_code out = 0
          \<and> map_of report (ascii ''success'') = Some (JBool True)
          \<and> map_of report (ascii ''status'') = Some (JStr (ascii ''1''))
          \<and> map_of report (ascii ''screenshot'') = Some JNull
          \<and> map_of report (ascii ''error'') = None
          \<and> (\<exists>w'. final_state out = driver_quit ops (print_json ops report w'))))"
  using itrans_main_all_pass [of cfg ops w d step] lks_main_all_pass [of cfg ops w d lks_step]
  by (simp add: Let_def to_dict_lookup to_dict_lks_lookup json_opt_str_def)

text \<open>The statement in the scripted browser with an empty script, where every call returns.\<close>

theorem passed_run_report_witness:
  "\<not> py_not (username sim_config) \<and> \<not> py_not (password sim_config)
   \<and> fst (build_driver sim_ops (sim_start [] (Inr (ascii ''cG5n'')))) = Inr RemoteWebDriver
   \<and> exit_code (sim_itrans_main [] (Inr (ascii ''cG5n''))) = 0
   \<and> map_of (to_dict (final_result (sim_itrans_main [] (Inr (ascii ''cG5n'')))))
        (ascii ''error'') = Some JNull
   \<and> map_of (to_dict (final_result (sim_itrans_main [] (Inr (ascii ''cG5n'')))))
        (ascii ''screenshot'') = Some JNull
   \<and> exit_code (sim_lks_main [] (Inr (ascii ''cG5n''))) = 0
   \<and> map_of (to_dict_lks (final_result (sim_lks_main [] (Inr (ascii ''cG5n'')))))
        (ascii ''error'') = None
   \<and> map_of (to_dict_lks (final_result (sim_lks_main [] (Inr (ascii ''cG5n'')))))
        (ascii ''success'') = Some (JBool True)"
proof -
  let ?w = "sim_start [] (Inr (ascii ''cG5n''))"
  have c: "\<not> py_not (username sim_config)" "\<not> py_not (password sim_config)"
    "fst (build_driver sim_ops ?w) = Inr RemoteWebDriver"
    by (simp_all add: sim_config_def py_not_def sim_ops_def)
  have p1: "all_return
          ((\<lambda>n test. sim_call) 1 \<lparr>driver = Some RemoteWebDriver, check_error_banner = False\<rparr>
             # map (\<lambda>s. (\<lambda>n test. sim_call) (fst s)
                            \<lparr>driver = Some RemoteWebDriver, check_error_banner = True\<rparr>)
                 itrans_later_steps)
          (snd (build_driver sim_ops ?w))"
    by (simp add: itrans_later_steps_def sim_ops_def sim_call_def sim_start_def)
  have p2: "all_return (map (\<lambda>s. retried sim_ops (Some RemoteWebDriver) 2
                                   ((\<lambda>n. sim_call) (fst s))) lks_step_list)
          (snd (build_driver sim_ops ?w))"
    by (simp add: lks_step_list_def sim_ops_def sim_call_def sim_start_def numeral_2_eq_2)
  from passed_run_report
    [where cfg = sim_config and ops = sim_ops and w = ?w and d = RemoteWebDriver
       and step = "\<lambda>n test. sim_call" and lks_step = "\<lambda>n. sim_call"] c p1 p2
  show ?thesis
    unfolding sim_itrans_main_def sim_lks_main_def Let_def by blast
qed


lemma final_test_itrans_critical [simp]:
  "final_test (itrans_critical ops cfg e test r w) = test"
  by (simp add: itrans_critical_def Let_def split_beta)

lemma exit_code_itrans_critical [simp]:
  "exit_code (itrans_critical ops cfg e test r w) = 1"
  by (simp add: itrans_critical_def Let_def split_beta)

lemma final_test_itrans_steps [simp]:
  "final_test (itrans_steps ops step cfg test ss r w) = test"
proof (induction ss arbitrary: r w)
  case Nil
  show ?case by (simp add: Let_def)
next
  case (Cons s ss)
  obtain n key where s: "s = (n, key)" by (cases s) auto
  show ?case
    by (cases "itrans_step ops cfg n key (step n test) r w") (simp_all add: s Cons.IH)
qed

lemma itrans_quit_fields [simp]:
  "final_test (itrans_quit ops drv out) = final_test out"
  "exit_code (itrans_quit ops drv out) = exit_code out"
  "final_result (itrans_quit ops drv out) = final_result out"
  by (cases drv; simp add: itrans_quit_def)+

lemma itrans_steps_flag_on:
  assumes "check_error_banner test" and "\<forall>s \<in> set ss. fst s \<noteq> 1"
  shows "itrans_steps ops (\<lambda>n t. step n (t\<lparr>check_error_banner := n \<noteq> 1\<rparr>)) cfg test ss r w
           = itrans_steps ops step cfg test ss r w"
  using assms(2)
proof (induction ss arbitrary: r w)
  case Nil
  show ?case by simp
next
  case (Cons s ss)
  obtain n key where s: "s = (n, key)" by (cases s) auto
  with Cons.prems have n: "n \<noteq> Suc 0" by simp
  from assms(1) have t: "test\<lparr>check_error_banner := True\<rparr> = test" by (cases test) simp
  from Cons have ih: "\<And>r w. itrans_steps ops (\<lambda>n t. step n (t\<lparr>check_error_banner := n \<noteq> 1\<rparr>)) cfg test ss r w
           = itrans_steps ops step cfg test ss r w"
    by simp
  show ?case
    using ih by (cases "itrans_step ops cfg n key (step n test) r w") (simp_all add: s n t)
qed

lemma itrans_main_flag_window:
  "itrans_main ops (\<lambda>n t. step n (t\<lparr>check_error_banner := n \<noteq> 1\<rparr>)) cfg w
     = itrans_main ops step cfg w"
proof -
  have later: "\<forall>s \<in> set itrans_later_steps. fst s \<noteq> 1"
    by (simp add: itrans_later_steps_def)
  have "itrans_steps ops (\<lambda>n t. step n (t\<lparr>check_error_banner := n \<noteq> 1\<rparr>)) cfg
            (ItransTest\<lparr>driver := Some d, check_error_banner := True\<rparr>) itrans_later_steps r v
          = itrans_steps ops step cfg
            (ItransTest\<lparr>driver := Some d, check_error_banner := True\<rparr>) itrans_later_steps r v"
    for d r v
    by (rule itrans_steps_flag_on [OF _ later]) simp
  then show ?thesis
    by (simp add: itrans_main_def Let_def cong: step_outcome.case_cong prod.case_cong sum.case_cong)
qed

lemma itrans_main_login_returns:
  assumes "\<not> py_not (username cfg)" "\<not> py_not (password cfg)"
    and "fst (build_driver ops w) = Inr d"
    and "\<not> isl (fst (step 1 \<lparr>driver = Some d, check_error_banner = False\<rparr>
                        (snd (build_driver ops w))))"
  shows "check_error_banner (final_test (itrans_main ops step cfg w))"
proof -
  let ?off = "\<lparr>driver = Some d, check_error_banner = False\<rparr>"
  obtain w1 where bd: "build_driver ops w = (Inr d, w1)"
    using assms(3) by (cases "build_driver ops w") auto
  obtain x w2 where a: "step 1 ?off w1 = (x, w2)" by (cases "step 1 ?off w1")
  with assms(4) bd obtain u where "x = Inr u" by (cases x) auto
  with a bd assms(1,2) show ?thesis
    by (simp add: itrans_main_def Let_def ItransTest_def itrans_step_def)
qed

lemma itrans_main_login_raises:
  assumes "\<not> py_not (username cfg)" "\<not> py_not (password cfg)"
    and "fst (build_driver ops w) = Inr d"
    and "isl (fst (step 1 \<lparr>driver = Some d, check_error_banner = False\<rparr>
                      (snd (build_driver ops w))))"
  shows "\<not> check_error_banner (final_test (itrans_main ops step cfg w))
    \<and> exit_code (itrans_main ops step cfg w) = 1
    \<and> itrans_main ops (\<lambda>n. if n = 1 then step 1 else other n) cfg w = itrans_main ops step cfg w"
proof (intro conjI)
  let ?off = "\<lparr>driver = Some d, check_error_banner = False\<rparr>"
  obtain w1 where bd: "build_driver ops w = (Inr d, w1)"
    using assms(3) by (cases "build_driver ops w") auto
  obtain x w2 where a: "step 1 ?off w1 = (x, w2)" by (cases "step 1 ?off w1")
  with assms(4) bd obtain e where x: "x = Inl e" by (cases x) auto
  obtain y w3 where c: "get_screenshot_b64 ops w2 = (y, w3)" by (cases "get_screenshot_b64 ops w2")
  show "\<not> check_error_banner (final_test (itrans_main ops step cfg w))"
    using a bd x c assms(1,2)
    by (cases y) (simp_all add: itrans_main_def Let_def ItransTest_def itrans_step_def)
  show "exit_code (itrans_main ops step cfg w) = 1"
    using a bd x c assms(1,2)
    by (cases y) (simp_all add: itrans_main_def Let_def ItransTest_def itrans_step_def)
  show "itrans_main ops (\<lambda>n. if n = 1 then step 1 else other n) cfg w = itrans_main ops step cfg w"
    using a bd x c assms(1,2)
    by (cases y) (simp_all add: itrans_main_def Let_def ItransTest_def itrans_step_def)
qed

lemma execute_login_step_returns:
  assumes "\<not> isl (fst (action (test\<lparr>check_error_banner := False\<rparr>) v))"
  shows "fst (execute_login_step ops cfg action test r v) = Inr True
    \<and> check_error_banner (fst (snd (execute_login_step ops cfg action test r v)))"
proof -
  obtain x v1 where a: "action (test\<lparr>check_error_banner := False\<rparr>) v = (x, v1)"
    by (cases "action (test\<lparr>check_error_banner := False\<rparr>) v")
  with assms obtain u where "x = Inr u" by (cases x) auto
  with a show ?thesis
    by (simp add: execute_login_step_def execute_step_def Let_def)
qed

lemma execute_login_step_raises:
  assumes "isl (fst (action (test\<lparr>check_error_banner := False\<rparr>) v))"
  shows "fst (execute_login_step ops cfg action test r v) \<noteq> Inr True
    \<and> \<not> check_error_banner (fst (snd (execute_login_step ops cfg action test r v)))"
proof (intro conjI)
  obtain x v1 where a: "action (test\<lparr>check_error_banner := False\<rparr>) v = (x, v1)"
    by (cases "action (test\<lparr>check_error_banner := False\<rparr>) v")
  with assms obtain e where x: "x = Inl e" by (cases x) auto
  obtain y v2 where c: "get_screenshot_b64 ops v1 = (y, v2)" by (cases "get_screenshot_b64 ops v1")
  show "fst (execute_login_step ops cfg action test r v) \<noteq> Inr True"
    using a x c by (cases y) (simp_all add: execute_login_step_def execute_step_def Let_def)
  show "\<not> check_error_banner (fst (snd (execute_login_step ops cfg action test r v)))"
    using a x c by (cases y) (simp_all add: execute_login_step_def execute_step_def Let_def)
qed

text \<open>
  C4, amended. In itrans.py the banner check is disabled exactly for the call of step 1:
  \<open>main\<close> behaves the same when step 1 is forced to see the flag off and every later step
  to see it on. When the login call returns, the flag is enabled again, and stays so to the
  end of the run. When the login call raises, the flag is left disabled, \<open>main\<close> exits with 1
  and no later step is called (the run is the same whatever the later step functions
  are). \<open>execute_step\<close> of itrans\_zd.py with the closures of step 1 does the same: flag
  enabled after a login that returned, disabled after one that raised.
\<close>

theorem banner_check_restored_after_login:
  "itrans_main ops (\<lambda>n t. step n (t\<lparr>check_error_banner := n \<noteq> 1\<rparr>)) cfg w
     = itrans_main ops step cfg w
   \<and> (\<not> py_not (username cfg) \<and> \<not> py_not (password cfg) \<and> fst (build_driver ops w) = Inr d
        \<and> \<not> isl (fst (step 1 \<lparr>driver = Some d, check_error_banner = False\<rparr>
                          (snd (build_driver ops w)))) \<longrightarrow>
      check_error_banner (final_test (itrans_main ops step cfg w)))
   \<and> (\<not> py_not (username cfg) \<and> \<not> py_not (password cfg) \<and> fst (build_driver ops w) = Inr d
        \<and> isl (fst (step 1 \<lparr>driver = Some d, check_error_banner = False\<rparr>
                        (snd (build_driver ops w)))) \<longrightarrow>
      \<not> check_error_banner (final_test (itrans_main ops step cfg w))
      \<and> exit_code (itrans_main ops step cfg w) = 1
      \<and> itrans_main ops (\<lambda>n. if n = 1 then step 1 else other n) cfg w
          = itrans_main ops step cfg w)
   \<and> (\<not> isl (fst (action (test\<lparr>check_error_banner := False\<rparr>) v)) \<longrightarrow>
      fst (execute_login_step ops cfg action test r v) = Inr True
      \<and> check_error_banner (fst (snd (execute_login_step ops cfg action test r v))))
   \<and> (isl (fst (action (test\<lparr>check_error_banner := False\<rparr>) v)) \<longrightarrow>
      fst (execute_login_step ops cfg action test r v) \<noteq> Inr True
      \<and> \<not> check_error_banner (fst (snd (execute_login_step ops cfg action test r v))))"
  using itrans_main_flag_window [where ops = ops and step = step and cfg = cfg and w = w]
    itrans_main_login_returns [where ops = ops and step = step and cfg = cfg and w = w and d = d]
    itrans_main_login_raises
      [where ops = ops and step = step and cfg = cfg and w = w and d = d and other = other]
    execute_login_step_returns
      [where ops = ops and cfg = cfg and action = action and test = test and r = r and v = v]
    execute_login_step_raises
      [where ops = ops and cfg = cfg and action = action and test = test and r = r and v = v]
  by blast

text \<open>The statement in the scripted browser: a login that returns, and one that raises.\<close>

theorem banner_check_restored_after_login_witness:
  "\<not> py_not (username sim_config) \<and> \<not> py_not (password sim_config)
   \<and> fst (build_driver sim_ops (sim_start [] (Inr (ascii ''cG5n'')))) = Inr RemoteWebDriver
   \<and> check_error_banner (final_test (sim_itrans_main [] (Inr (ascii ''cG5n''))))
   \<and> \<not> check_error_banner (final_test
         (sim_itrans_main [Inl (Exception (ascii ''login failed''))] (Inr (ascii ''cG5n''))))
   \<and> exit_code (sim_itrans_main [Inl (Exception (ascii ''login failed''))]
                   (Inr (ascii ''cG5n''))) = 1
   \<and> check_error_banner (fst (snd
        (execute_login_step sim_ops sim_config (\<lambda>test. sim_call) example_test (TestResult 0)
           (sim_start [] (Inr (ascii ''cG5n''))))))
   \<and> \<not> check_error_banner (fst (snd
        (execute_login_step sim_ops sim_config (\<lambda>test. sim_call) example_test (TestResult 0)
           (sim_start [Inl (Exception (ascii ''login failed''))] (Inr (ascii ''cG5n''))))))"
proof -
  let ?ok = "sim_start [] (Inr (ascii ''cG5n''))"
  let ?bad = "sim_start [Inl (Exception (ascii ''login failed''))] (Inr (ascii ''cG5n''))"
  have c: "\<not> py_not (username sim_config)" "\<not> py_not (password sim_config)"
    "fst (build_driver sim_ops ?ok) = Inr RemoteWebDriver"
    "fst (build_driver sim_ops ?bad) = Inr RemoteWebDriver"
    by (simp_all add: sim_config_def py_not_def sim_ops_def)
  have calls: "\<not> isl (fst (sim_call (snd (build_driver sim_ops ?ok))))"
    "isl (fst (sim_call (snd (build_driver sim_ops ?bad))))"
    "\<not> isl (fst (sim_call ?ok))" "isl (fst (sim_call ?bad))"
    by (simp_all add: sim_ops_def sim_call_def sim_start_def)
  note good = banner_check_restored_after_login
    [where ops = sim_ops and step = "\<lambda>n test. sim_call" and cfg = sim_config and w = ?ok
       and d = RemoteWebDriver and other = "\<lambda>n test. sim_call" and action = "\<lambda>test. sim_call"
       and test = example_test and v = ?ok and r = "TestResult 0"]
  note bad = banner_check_restored_after_login
    [where ops = sim_ops and step = "\<lambda>n test. sim_call" and cfg = sim_config and w = ?bad
       and d = RemoteWebDriver and other = "\<lambda>n test. sim_call" and action = "\<lambda>test. sim_call"
       and test = example_test and v = ?bad and r = "TestResult 0"]
  from good c calls have "check_error_banner (final_test (sim_itrans_main [] (Inr (ascii ''cG5n''))))"
    and "check_error_banner (fst (snd
        (execute_login_step sim_ops sim_config (\<lambda>test. sim_call) example_test (TestResult 0) ?ok)))"
    unfolding sim_itrans_main_def by blast+
  moreover from bad c calls have
    "\<not> check_error_banner (final_test
         (sim_itrans_main [Inl (Exception (ascii ''login failed''))] (Inr (ascii ''cG5n''))))"
    and "exit_code (sim_itrans_main [Inl (Exception (ascii ''login failed''))]
                   (Inr (ascii ''cG5n''))) = 1"
    and "\<not> check_error_banner (fst (snd
        (execute_login_step sim_ops sim_config (\<lambda>test. sim_call) example_test (TestResult 0) ?bad)))"
    unfolding sim_itrans_main_def by blast+
  ultimately show ?thesis using c by blast
qed

section \<open>Fail-fast recording in lks.py\<close>

lemma retry_attempts_retried_failure:
  assumes "i + m = max_retries" and "isl (fst (retried ops drv m action w))"
  shows "\<exists>t0 e w'. retry_attempts ops cfg n key action drv descr max_retries
                      [i..<max_retries + 1] r w
           = (Some False, step_failed ops cfg n key descr t0 e r w')"
  using assms
proof (induction m arbitrary: i w)
  case 0
  then have l: "[i..<max_retries + 1] = [i]" by simp
  from 0 obtain e w1 where "action w = (Inl e, w1)"
    by (cases "action w"; cases "fst (action w)") auto
  with 0 show ?case unfolding l by (auto simp: Let_def split_beta)
next
  case (Suc m)
  then have l: "[i..<max_retries + 1] = i # [Suc i..<max_retries + 1]" and lt: "i < max_retries"
    by (simp_all add: upt_conv_Cons)
  obtain x w1 where a: "action w = (x, w1)" by (cases "action w")
  from a Suc.prems(2) obtain e where x: "x = Inl e" by (cases x) auto
  with a Suc.prems have "isl (fst (retried ops drv m action (refresh_and_wait ops drv w1)))"
    by simp
  from Suc.IH [OF _ this, of "Suc i"] Suc.prems(1)
  obtain t0 e' w' where "retry_attempts ops cfg n key action drv descr max_retries
        [Suc i..<max_retries + 1] r (refresh_and_wait ops drv w1)
      = (Some False, step_failed ops cfg n key descr t0 e' r w')"
    by auto
  with a x lt have "retry_attempts ops cfg n key action drv descr max_retries
        (i # [Suc i..<max_retries + 1]) r w
      = (Some False, step_failed ops cfg n key descr t0 e' r w')"
    by (simp add: Let_def del: upt_Suc)
  then show ?case unfolding l by blast
qed

lemma execute_step_with_retry_retried_failure:
  assumes "isl (fst (retried ops drv m action w))"
  shows "\<exists>t0 e w'. execute_step_with_retry ops cfg n key action drv descr m r w
           = (Some False, step_failed ops cfg n key descr t0 e r w')"
  unfolding execute_step_with_retry_def
  using retry_attempts_retried_failure [of 0 m m ops drv action w cfg n key descr r] assms
  by simp

lemma update_fresh: "k \<notin> fst ` set al \<Longrightarrow> AList.update k v al = al @ [(k, v)]"
  by (induction al) auto

lemma step_statuses_add_step:
  "k \<notin> fst ` set (steps r) \<Longrightarrow>
   step_statuses (add_step r k st d) = step_statuses r @ [(k, st)]"
  by (simp add: step_statuses_def add_step_def Let_def update_fresh)

lemma steps_keys_add_step:
  "fst ` set (steps (add_step r k st d)) = insert k (fst ` set (steps r))"
  by (simp add: add_step_def Let_def dom_update)

lemma step_statuses_step_failed:
  "k \<notin> fst ` set (steps r) \<Longrightarrow>
   step_statuses (fst (step_failed ops cfg n k descr t0 e r w)) = step_statuses r @ [(k, ascii ''0'')]"
  by (simp add: step_statuses_def step_failed_fields update_fresh)

text \<open>lks.py: when the steps of \<open>pre\<close> pass and the next step fails, the result lists the
  steps of \<open>pre\<close> as passed and that step as failed, the run exits with 1, and the steps
  after it play no part.\<close>

lemma lks_steps_fail_fast:
  assumes "all_return (map (\<lambda>s. retried ops drv 2 (step (fst s))) pre) w"
    and "isl (fst (retried ops drv 2 (step n)
                     (after_all (map (\<lambda>s. retried ops drv 2 (step (fst s))) pre) w)))"
    and "distinct (map (\<lambda>s. fst (snd s)) pre @ [key])"
    and "\<forall>k \<in> set (map (\<lambda>s. fst (snd s)) pre @ [key]). k \<notin> fst ` set (steps r)"
  shows "step_statuses (final_result (lks_steps ops step cfg drv (pre @ (n, key, descr) # post) r w))
           = step_statuses r @ map (\<lambda>s. (fst (snd s), ascii ''1'')) pre @ [(key, ascii ''0'')]
     \<and> exit_code (lks_steps ops step cfg drv (pre @ (n, key, descr) # post) r w) = 1
     \<and> \<not> success (final_result (lks_steps ops step cfg drv (pre @ (n, key, descr) # post) r w))
     \<and> lks_steps ops step cfg drv (pre @ (n, key, descr) # post) r w
         = lks_steps ops step cfg drv (pre @ [(n, key, descr)]) r w"
  using assms
proof (induction pre arbitrary: r w)
  case Nil
  from execute_step_with_retry_retried_failure [of ops drv 2 "step n" w cfg n key "Some descr" r] Nil
  obtain t0 e w' where e: "execute_step_with_retry ops cfg n key (step n) drv (Some descr) 2 r w
           = (Some False, step_failed ops cfg n key (Some descr) t0 e r w')"
    by auto
  from Nil have "key \<notin> fst ` set (steps r)" by simp
  then show ?case
    by (simp add: e split_beta step_statuses_step_failed step_failed_fields)
next
  case (Cons s pre)
  obtain m k d where s: "s = (m, k, d)" by (cases s) auto
  obtain x w1 where a: "retried ops drv 2 (step m) w = (x, w1)"
    by (cases "retried ops drv 2 (step m) w")
  from Cons.prems(1) a s have ok: "\<not> isl x" by (cases x) simp_all
  from Cons.prems(1) a s have rest:
    "all_return (map (\<lambda>s. retried ops drv 2 (step (fst s))) pre) w1"
    by (cases x) simp_all
  from ok a have "\<not> isl (fst (retried ops drv 2 (step m) w))" by simp
  from execute_step_with_retry_retried [OF this, of cfg m k "Some d" r] a
  obtain dur where e: "execute_step_with_retry ops cfg m k (step m) drv (Some d) 2 r w
           = (Some True, add_step r k (ascii ''1'') dur, w1)"
    by auto
  let ?r1 = "add_step r k (ascii ''1'') dur"
  from Cons.prems(2) a s have fail:
    "isl (fst (retried ops drv 2 (step n)
                 (after_all (map (\<lambda>s. retried ops drv 2 (step (fst s))) pre) w1)))"
    by simp
  from Cons.prems(3) s have dist: "distinct (map (\<lambda>s. fst (snd s)) pre @ [key])"
    and knew: "k \<notin> set (map (\<lambda>s. fst (snd s)) pre @ [key])"
    by auto
  from Cons.prems(4) s have kfresh: "k \<notin> fst ` set (steps r)" by simp
  have fresh: "\<forall>k' \<in> set (map (\<lambda>s. fst (snd s)) pre @ [key]). k' \<notin> fst ` set (steps ?r1)"
    using Cons.prems(4) knew by (auto simp: steps_keys_add_step)
  let ?full = "lks_steps ops step cfg drv (pre @ (n, key, descr) # post) ?r1 w1"
  let ?cut = "lks_steps ops step cfg drv (pre @ [(n, key, descr)]) ?r1 w1"
  from Cons.IH [OF rest fail dist fresh]
  have ih: "step_statuses (final_result ?full)
           = step_statuses ?r1 @ map (\<lambda>s. (fst (snd s), ascii ''1'')) pre @ [(key, ascii ''0'')]"
    "exit_code ?full = 1" "\<not> success (final_result ?full)" "?full = ?cut"
    by blast+
  have unfold: "lks_steps ops step cfg drv ((s # pre) @ (n, key, descr) # post) r w = ?full"
    "lks_steps ops step cfg drv ((s # pre) @ [(n, key, descr)]) r w = ?cut"
    by (simp_all add: s e)
  show ?case
    unfolding unfold using ih by (simp add: s step_statuses_add_step [OF kfresh])
qed

lemma lks_step_list_keys:
  "distinct (map (\<lambda>s. fst (snd s)) lks_step_list)"
  by (simp add: lks_step_list_def)


text \<open>For \<open>main\<close> of lks.py: if the step at position \<open>length pre + 1\<close> of the five is the first
  to fail, the result holds exactly that many entries, in order, all passed but the last.\<close>

lemma lks_main_fail_fast:
  assumes cred: "\<not> py_not (username cfg)" "\<not> py_not (password cfg)"
    and b: "fst (build_driver ops w) = Inr d"
    and split: "lks_step_list = pre @ (n, key, descr) # post"
    and pass: "all_return (map (\<lambda>s. retried ops (Some d) 2 (step (fst s))) pre)
                 (snd (build_driver ops w))"
    and fail: "isl (fst (retried ops (Some d) 2 (step n)
                 (after_all (map (\<lambda>s. retried ops (Some d) 2 (step (fst s))) pre)
                    (snd (build_driver ops w)))))"
  shows "step_statuses (final_result (lks_main ops step cfg w))
           = map (\<lambda>s. (fst (snd s), ascii ''1'')) pre @ [(key, ascii ''0'')]
     \<and> length (steps (final_result (lks_main ops step cfg w))) = length pre + 1
     \<and> exit_code (lks_main ops step cfg w) = 1
     \<and> \<not> success (final_result (lks_main ops step cfg w))"
proof -
  let ?r0 = "TestResult (time_time ops w)"
  obtain w1 where bd: "build_driver ops w = (Inr d, w1)"
    using b by (cases "build_driver ops w") auto
  have m: "lks_main ops step cfg w
             = quit_driver ops (Some d)
                 (lks_steps ops step cfg (Some d) (pre @ (n, key, descr) # post) ?r0 w1)"
    using cred bd by (simp add: lks_main_def Let_def split)
  from lks_step_list_keys have dist: "distinct (map (\<lambda>s. fst (snd s)) pre @ [key])"
    by (simp add: split)
  have fresh: "\<forall>k \<in> set (map (\<lambda>s. fst (snd s)) pre @ [key]). k \<notin> fst ` set (steps ?r0)"
    by (simp add: TestResult_def)
  have st: "step_statuses ?r0 = []" by (simp add: step_statuses_def TestResult_def)
  from pass bd have pass': "all_return (map (\<lambda>s. retried ops (Some d) 2 (step (fst s))) pre) w1"
    by simp
  from fail bd have fail': "isl (fst (retried ops (Some d) 2 (step n)
                 (after_all (map (\<lambda>s. retried ops (Some d) 2 (step (fst s))) pre) w1)))"
    by simp
  from lks_steps_fail_fast
    [where ops = ops and drv = "Some d" and step = step and pre = pre and w = w1 and n = n
       and key = key and r = ?r0 and cfg = cfg and descr = descr and post = post,
     OF pass' fail' dist fresh]
  have res0: "step_statuses (final_result
               (lks_steps ops step cfg (Some d) (pre @ (n, key, descr) # post) ?r0 w1))
           = step_statuses ?r0 @ map (\<lambda>s. (fst (snd s), ascii ''1'')) pre @ [(key, ascii ''0'')]"
    and res23: "exit_code (lks_steps ops step cfg (Some d) (pre @ (n, key, descr) # post) ?r0 w1) = 1"
    "\<not> success (final_result
               (lks_steps ops step cfg (Some d) (pre @ (n, key, descr) # post) ?r0 w1))"
    by blast+
  from res0 have res1: "step_statuses (final_result
               (lks_steps ops step cfg (Some d) (pre @ (n, key, descr) # post) ?r0 w1))
           = map (\<lambda>s. (fst (snd s), ascii ''1'')) pre @ [(key, ascii ''0'')]"
    unfolding st by simp
  note res = res1 res23
  from res(1) have "length (step_statuses (final_result
               (lks_steps ops step cfg (Some d) (pre @ (n, key, descr) # post) ?r0 w1)))
           = length pre + 1"
    by simp
  then have len: "length (steps (final_result
               (lks_steps ops step cfg (Some d) (pre @ (n, key, descr) # post) ?r0 w1)))
           = length pre + 1"
    by (simp add: step_statuses_def)
  show ?thesis
    unfolding m using res len by (simp add: quit_driver_def)
qed

end
